theory Spec2Isabelle
  imports Complex_Main "HOL-Library.Word" "HOL-Library.Log_Nat" "HOL-Library.Char_ord"
begin

section \<open>Graph types (internal/graph/types.go)\<close>

text \<open>
  \<open>NodeID\<close> and \<open>EdgeID\<close> are \<open>uint64\<close>. A property value is a Go \<open>interface{}\<close>; the
  constructors of \<open>PropertyValue\<close> are the dynamic types of the data model (nil, \<open>bool\<close>,
  \<open>int\<close>, \<open>int64\<close>, \<open>float64\<close>, \<open>string\<close>), which are also the ones the parser produces and
  the ones \<open>toFloat\<close> and \<open>compareValues\<close> distinguish; \<open>float32\<close>, the fourth numeric case of
  \<open>toFloat\<close>, is not among them. A double is a finite number, an infinity or NaN; the
  finite ones are carried by the real number they denote.
\<close>

type_synonym NodeID = "64 word"
type_synonym EdgeID = "64 word"

datatype float64 = Fin real | PosInf | NegInf | NaN

datatype PropertyValue =
    VNil
  | VBool bool
  | VInt int
  | VInt64 int
  | VFloat64 float64
  | VString string

type_synonym Properties = "string \<rightharpoonup> PropertyValue"

text \<open>
  The structs \<open>Node\<close> and \<open>Edge\<close>. The timestamps \<open>CreatedAt\<close>, \<open>UpdatedAt\<close> (wall-clock
  readings) and the mutex \<open>Mu\<close> are left out: no operation below reads them. The fields
  of \<open>Edge\<close> carry the prefix \<open>E\<close> where the name is also a field of \<open>Node\<close>.
\<close>

record Node =
  ID :: NodeID
  Label :: string
  Properties :: Properties
  OutEdges :: "EdgeID list"
  InEdges :: "EdgeID list"

record Edge =
  EID :: EdgeID
  Source :: NodeID
  Target :: NodeID
  ELabel :: string
  EProperties :: Properties

definition NewNode :: "NodeID \<Rightarrow> string \<Rightarrow> Node" where
  "NewNode i label =
     \<lparr>ID = i, Label = label, Properties = Map.empty, OutEdges = [], InEdges = []\<rparr>"

definition NewEdge :: "EdgeID \<Rightarrow> NodeID \<Rightarrow> NodeID \<Rightarrow> string \<Rightarrow> Edge" where
  "NewEdge i source target label =
     \<lparr>EID = i, Source = source, Target = target, ELabel = label, EProperties = Map.empty\<rparr>"

definition GetProperty :: "Node \<Rightarrow> string \<Rightarrow> PropertyValue option" where
  "GetProperty n key = Properties n key"

definition SetProperty :: "string \<Rightarrow> PropertyValue \<Rightarrow> Node \<Rightarrow> Node" where
  "SetProperty key v n = n\<lparr>Properties := (Properties n)(key \<mapsto> v)\<rparr>"

definition EdgeGetProperty :: "Edge \<Rightarrow> string \<Rightarrow> PropertyValue option" where
  "EdgeGetProperty e key = EProperties e key"

definition EdgeSetProperty :: "string \<Rightarrow> PropertyValue \<Rightarrow> Edge \<Rightarrow> Edge" where
  "EdgeSetProperty key v e = e\<lparr>EProperties := (EProperties e)(key \<mapsto> v)\<rparr>"

text \<open>
  The loop \<open>for k, v := range properties { x.SetProperty(k, v) }\<close>: every key of
  \<open>properties\<close> is set once, so the outcome is the old map overridden by \<open>properties\<close>.
  A nil \<open>properties\<close> is the empty map (the loop over it does nothing).
\<close>

definition SetProperties :: "Properties \<Rightarrow> Node \<Rightarrow> Node" where
  "SetProperties properties n = n\<lparr>Properties := Properties n ++ properties\<rparr>"

definition EdgeSetProperties :: "Properties \<Rightarrow> Edge \<Rightarrow> Edge" where
  "EdgeSetProperties properties e = e\<lparr>EProperties := EProperties e ++ properties\<rparr>"

definition AddOutEdge :: "EdgeID \<Rightarrow> Node \<Rightarrow> Node" where
  "AddOutEdge edgeID n = n\<lparr>OutEdges := OutEdges n @ [edgeID]\<rparr>"

definition AddInEdge :: "EdgeID \<Rightarrow> Node \<Rightarrow> Node" where
  "AddInEdge edgeID n = n\<lparr>InEdges := InEdges n @ [edgeID]\<rparr>"


section \<open>In-memory graph (pkg/storage/graph.go)\<close>

datatype error =
    ErrNodeNotFound NodeID
  | ErrEdgeNotFound EdgeID
  | ErrEncode
  | ErrSync
  | ErrIO
  | ErrPanic
  | ErrWrap string error

text \<open>
  \<open>nodes\<close> and \<open>edges\<close> are Go maps from IDs to pointers. Every key holds its own object,
  so the map is the store and the ID the address: a mutation through a pointer returned
  by \<open>GetNode\<close> is an update of the map at that ID (\<open>updateNode\<close>).
\<close>

record Graph =
  nodes :: "NodeID \<rightharpoonup> Node"
  edges :: "EdgeID \<rightharpoonup> Edge"
  nextNodeID :: "64 word"
  nextEdgeID :: "64 word"

definition NewGraph :: Graph where
  "NewGraph = \<lparr>nodes = Map.empty, edges = Map.empty, nextNodeID = 1, nextEdgeID = 1\<rparr>"

definition updateNode :: "NodeID \<Rightarrow> (Node \<Rightarrow> Node) \<Rightarrow> Graph \<Rightarrow> Graph" where
  "updateNode i f g =
     (case nodes g i of
        None \<Rightarrow> g
      | Some n \<Rightarrow> g\<lparr>nodes := (nodes g)(i \<mapsto> f n)\<rparr>)"

text \<open>\<open>nextNodeID.Add(1) - 1\<close> is the counter's old value; the counter wraps at \<open>2^64\<close>.\<close>

definition AddNode :: "string \<Rightarrow> Properties \<Rightarrow> Graph \<Rightarrow> Node \<times> Graph" where
  "AddNode label properties g =
     (let nodeID = nextNodeID g;
          node = SetProperties properties (NewNode nodeID label)
      in (node, g\<lparr>nodes := (nodes g)(nodeID \<mapsto> node), nextNodeID := nodeID + 1\<rparr>))"

definition GetNode :: "Graph \<Rightarrow> NodeID \<Rightarrow> error + Node" where
  "GetNode g i = (case nodes g i of None \<Rightarrow> Inl (ErrNodeNotFound i) | Some n \<Rightarrow> Inr n)"

definition GetEdge :: "Graph \<Rightarrow> EdgeID \<Rightarrow> error + Edge" where
  "GetEdge g i = (case edges g i of None \<Rightarrow> Inl (ErrEdgeNotFound i) | Some e \<Rightarrow> Inr e)"

definition AddEdge ::
  "NodeID \<Rightarrow> NodeID \<Rightarrow> string \<Rightarrow> Properties \<Rightarrow> Graph \<Rightarrow> error + (Edge \<times> Graph)" where
  "AddEdge source target label properties g =
     (case GetNode g source of
        Inl err \<Rightarrow> Inl (ErrWrap ''source node'' err)
      | Inr srcNode \<Rightarrow>
     (case GetNode g target of
        Inl err \<Rightarrow> Inl (ErrWrap ''target node'' err)
      | Inr tgtNode \<Rightarrow>
          let edgeID = nextEdgeID g;
              edge = EdgeSetProperties properties (NewEdge edgeID source target label);
              g1 = g\<lparr>edges := (edges g)(edgeID \<mapsto> edge), nextEdgeID := edgeID + 1\<rparr>;
              g2 = updateNode source (AddOutEdge edgeID) g1;
              g3 = updateNode target (AddInEdge edgeID) g2
          in Inr (edge, g3)))"

definition NodeCount :: "Graph \<Rightarrow> nat" where
  "NodeCount g = card (dom (nodes g))"


text \<open>The removal loops stop at the first match: \<open>remove1\<close>.\<close>

definition removeOutEdge :: "EdgeID \<Rightarrow> Node \<Rightarrow> Node" where
  "removeOutEdge edgeID n = n\<lparr>OutEdges := remove1 edgeID (OutEdges n)\<rparr>"

definition removeInEdge :: "EdgeID \<Rightarrow> Node \<Rightarrow> Node" where
  "removeInEdge edgeID n = n\<lparr>InEdges := remove1 edgeID (InEdges n)\<rparr>"

definition DeleteEdge :: "EdgeID \<Rightarrow> Graph \<Rightarrow> error + Graph" where
  "DeleteEdge i g =
     (case GetEdge g i of
        Inl err \<Rightarrow> Inl err
      | Inr edge \<Rightarrow>
          let g1 = updateNode (Source edge) (removeOutEdge i) g;
              g2 = updateNode (Target edge) (removeInEdge i) g1
          in Inr (g2\<lparr>edges := (edges g2)(i := None)\<rparr>))"

text \<open>A call whose error is dropped, as in \<open>g.DeleteEdge(edgeID)\<close> inside \<open>DeleteNode\<close>.\<close>

definition ignoreError :: "error + Graph \<Rightarrow> Graph \<Rightarrow> Graph" where
  "ignoreError r g = (case r of Inl err \<Rightarrow> g | Inr g' \<Rightarrow> g')"

definition DeleteEdges :: "EdgeID list \<Rightarrow> Graph \<Rightarrow> Graph" where
  "DeleteEdges ids g = fold (\<lambda>edgeID g'. ignoreError (DeleteEdge edgeID g') g') ids g"

definition DeleteNode :: "NodeID \<Rightarrow> Graph \<Rightarrow> error + Graph" where
  "DeleteNode i g =
     (case GetNode g i of
        Inl err \<Rightarrow> Inl err
      | Inr node \<Rightarrow>
          let outEdges = OutEdges node;
              inEdges = InEdges node;
              g1 = DeleteEdges outEdges g;
              g2 = DeleteEdges inEdges g1
          in Inr (g2\<lparr>nodes := (nodes g2)(i := None)\<rparr>))"


subsection \<open>The invariants of the data model\<close>

text \<open>
  \<open>wellformed\<close>: every node is stored under its own ID, below the ID counter; an adjacency
  list has no duplicates and every ID in a node's out-list (in-list) is an edge whose
  source (target) is that node; every edge is stored under its own ID, below the edge
  counter, both its endpoints exist, and it is listed in its source's out-list and in
  its target's in-list. \<open>inMemoryReachable\<close> are the states that the four mutating
  operations of \<open>Graph\<close> (\<open>AddNode\<close>, \<open>AddEdge\<close>, \<open>DeleteEdge\<close>, \<open>DeleteNode\<close>) produce from
  \<open>NewGraph\<close> while the 64-bit counters have not wrapped around. The persistent graph
  also writes the maps and counters of its \<open>Graph\<close> directly, in \<open>Recover\<close> and
  \<open>applyWALEntry\<close>; the states built that way are not covered by \<open>inMemoryReachable\<close>, and
  they are not all well-formed (section \<open>Deleting a node\<close>).
\<close>

definition nodePayload :: "Node \<Rightarrow> NodeID \<times> string \<times> Properties" where
  "nodePayload n = (ID n, Label n, Properties n)"

definition node_ok :: "Graph \<Rightarrow> NodeID \<Rightarrow> Node \<Rightarrow> bool" where
  "node_ok g i n \<longleftrightarrow>
     ID n = i \<and> i < nextNodeID g \<and> distinct (OutEdges n) \<and> distinct (InEdges n)
     \<and> (\<forall>e \<in> set (OutEdges n). \<exists>ed. edges g e = Some ed \<and> Source ed = i)
     \<and> (\<forall>e \<in> set (InEdges n). \<exists>ed. edges g e = Some ed \<and> Target ed = i)"

definition edge_ok :: "Graph \<Rightarrow> EdgeID \<Rightarrow> Edge \<Rightarrow> bool" where
  "edge_ok g e ed \<longleftrightarrow>
     EID ed = e \<and> e < nextEdgeID g
     \<and> (\<exists>s. nodes g (Source ed) = Some s \<and> e \<in> set (OutEdges s))
     \<and> (\<exists>t. nodes g (Target ed) = Some t \<and> e \<in> set (InEdges t))"

definition wellformed :: "Graph \<Rightarrow> bool" where
  "wellformed g \<longleftrightarrow>
     (\<forall>i n. nodes g i = Some n \<longrightarrow> node_ok g i n)
   \<and> (\<forall>e ed. edges g e = Some ed \<longrightarrow> edge_ok g e ed)"

inductive inMemoryReachable :: "Graph \<Rightarrow> bool" where
  reach_new: "inMemoryReachable NewGraph"
| reach_AddNode: "inMemoryReachable g \<Longrightarrow> nextNodeID g + 1 \<noteq> 0 \<Longrightarrow> inMemoryReachable (snd (AddNode label props g))"
| reach_AddEdge: "inMemoryReachable g \<Longrightarrow> nextEdgeID g + 1 \<noteq> 0
      \<Longrightarrow> AddEdge source target label props g = Inr (edge, g') \<Longrightarrow> inMemoryReachable g'"
| reach_DeleteEdge: "inMemoryReachable g \<Longrightarrow> DeleteEdge e g = Inr g' \<Longrightarrow> inMemoryReachable g'"
| reach_DeleteNode: "inMemoryReachable g \<Longrightarrow> DeleteNode n g = Inr g' \<Longrightarrow> inMemoryReachable g'"


section \<open>Write-ahead log (pkg/wal/wal.go)\<close>

datatype OpType =
    OpAddNode | OpAddEdge | OpDeleteNode | OpDeleteEdge | OpSetNodeProp | OpSetEdgeProp

text \<open>
  \<open>LogEntry.Data\<close> is a \<open>map[string]interface{}\<close>. The log is written by \<open>LogAddNode\<close>,
  \<open>LogAddEdge\<close>, \<open>LogDeleteNode\<close> and \<open>LogDeleteEdge\<close> only, so the maps that occur have
  one of four key sets; \<open>Data\<close> has one constructor for each, and the reads
  \<open>entry.Data["node_id"]\<close>, ... of \<open>applyWALEntry\<close> are the accessors below (\<open>None\<close>: the key
  is absent). The \<open>Timestamp\<close> of an entry is left out.
\<close>

datatype Data =
    AddNodeData NodeID string Properties
  | AddEdgeData EdgeID NodeID NodeID string Properties
  | DeleteNodeData NodeID
  | DeleteEdgeData EdgeID

fun data_node_id :: "Data \<Rightarrow> NodeID option" where
  "data_node_id (AddNodeData nodeID label properties) = Some nodeID"
| "data_node_id (DeleteNodeData nodeID) = Some nodeID"
| "data_node_id _ = None"

fun data_edge_id :: "Data \<Rightarrow> EdgeID option" where
  "data_edge_id (AddEdgeData edgeID source target label properties) = Some edgeID"
| "data_edge_id (DeleteEdgeData edgeID) = Some edgeID"
| "data_edge_id _ = None"

fun data_source :: "Data \<Rightarrow> NodeID option" where
  "data_source (AddEdgeData edgeID source target label properties) = Some source"
| "data_source _ = None"

fun data_target :: "Data \<Rightarrow> NodeID option" where
  "data_target (AddEdgeData edgeID source target label properties) = Some target"
| "data_target _ = None"

fun data_label :: "Data \<Rightarrow> string option" where
  "data_label (AddNodeData nodeID label properties) = Some label"
| "data_label (AddEdgeData edgeID source target label properties) = Some label"
| "data_label _ = None"

fun data_properties :: "Data \<Rightarrow> Properties option" where
  "data_properties (AddNodeData nodeID label properties) = Some properties"
| "data_properties (AddEdgeData edgeID source target label properties) = Some properties"
| "data_properties _ = None"

record LogEntry =
  Index :: "64 word"
  OpType :: OpType
  Data :: Data

subsection \<open>What the JSON encoding does to a value\<close>

text \<open>
  Every record is written by \<open>json.Encoder.Encode\<close> and read back by
  \<open>json.Decoder.Decode\<close> into \<open>interface{}\<close> values. A JSON number is read back as a
  \<open>float64\<close> whatever Go type wrote it (\<open>applyWALEntry\<close> relies on this: it asserts
  \<open>entry.Data["node_id"].(float64)\<close> for an ID that was written as a \<open>uint64\<close>); strings,
  booleans and null come back as they were; NaN and the infinities cannot be encoded
  and make \<open>Encode\<close> fail. \<open>jsonValue v\<close> is what is read back for a written \<open>v\<close>, \<open>None\<close>
  when the encoding fails. Strings are taken to be valid UTF-8.

  \<open>float64_of_int\<close> is the conversion of an integer to the nearest double (ties to even):
  exact up to \<open>2^53\<close> in absolute value.
\<close>

definition round53 :: "nat \<Rightarrow> nat" where
  "round53 n =
     (if n < 9007199254740992 then n
      else let e = floorlog 2 n - 53;
               q = n div 2 ^ e;
               r = n mod 2 ^ e;
               q' = (if 2 * r > 2 ^ e \<or> (2 * r = 2 ^ e \<and> odd q) then q + 1 else q)
           in q' * 2 ^ e)"

definition float64_of_int :: "int \<Rightarrow> float64" where
  "float64_of_int i = Fin (real_of_int (sgn i * int (round53 (nat \<bar>i\<bar>))))"

fun jsonValue :: "PropertyValue \<Rightarrow> PropertyValue option" where
  "jsonValue VNil = Some VNil"
| "jsonValue (VBool b) = Some (VBool b)"
| "jsonValue (VInt i) = Some (VFloat64 (float64_of_int i))"
| "jsonValue (VInt64 i) = Some (VFloat64 (float64_of_int i))"
| "jsonValue (VFloat64 (Fin r)) = Some (VFloat64 (Fin r))"
| "jsonValue (VFloat64 _) = None"
| "jsonValue (VString s) = Some (VString s)"

definition encodable :: "Properties \<Rightarrow> bool" where
  "encodable properties = (\<forall>k. case properties k of None \<Rightarrow> True | Some v \<Rightarrow> jsonValue v \<noteq> None)"

definition jsonProperties :: "Properties \<Rightarrow> Properties" where
  "jsonProperties properties = (\<lambda>k. Option.bind (properties k) jsonValue)"

text \<open>An ID is written as a JSON number and read back through \<open>float64\<close>; IDs are taken to
  be below \<open>2^53\<close>, where this is exact.\<close>

fun jsonData :: "Data \<Rightarrow> Data option" where
  "jsonData (AddNodeData nodeID label properties) =
     (if encodable properties then Some (AddNodeData nodeID label (jsonProperties properties))
      else None)"
| "jsonData (AddEdgeData edgeID source target label properties) =
     (if encodable properties
      then Some (AddEdgeData edgeID source target label (jsonProperties properties))
      else None)"
| "jsonData (DeleteNodeData nodeID) = Some (DeleteNodeData nodeID)"
| "jsonData (DeleteEdgeData edgeID) = Some (DeleteEdgeData edgeID)"

subsection \<open>The log\<close>

text \<open>
  \<open>walFile\<close> is the content of \<open>wal.log\<close>: the records in file order, each as \<open>Decode\<close> returns
  it. The outcome of the system calls is a parameter of each operation.
\<close>

record WAL =
  walFile :: "LogEntry list"
  nextIndex :: "64 word"

datatype append_io = AppendOK | AppendWriteFails | AppendSyncFails

datatype truncate_io =
    TruncateOK
  | TruncateOpenFails
  | TruncateCloseFails
  | TruncateCreateFails
  | TruncateWriteFails nat
  | TruncateSyncFails

definition loadLastIndex :: "LogEntry list \<Rightarrow> 64 word" where
  "loadLastIndex entries =
     fold (\<lambda>entry lastIndex. if Index entry > lastIndex then Index entry else lastIndex)
       entries 0"

definition NewWAL :: "LogEntry list \<Rightarrow> WAL" where
  "NewWAL dir = \<lparr>walFile = dir, nextIndex = loadLastIndex dir + 1\<rparr>"

text \<open>
  \<open>Append\<close>: the entry is encoded and written, then synced, and only then is \<open>nextIndex\<close>
  advanced. A failed sync leaves the written record in the file.
\<close>

definition Append :: "append_io \<Rightarrow> OpType \<Rightarrow> Data \<Rightarrow> WAL \<Rightarrow> (error + 64 word) \<times> WAL" where
  "Append io opType data w =
     (case jsonData data of
        None \<Rightarrow> (Inl (ErrWrap ''failed to encode entry'' ErrEncode), w)
      | Some written \<Rightarrow>
          if io = AppendWriteFails then (Inl (ErrWrap ''failed to encode entry'' ErrIO), w)
          else
            let entry = \<lparr>Index = nextIndex w, OpType = opType, Data = written\<rparr>;
                w1 = w\<lparr>walFile := walFile w @ [entry]\<rparr>
            in if io = AppendSyncFails then (Inl (ErrWrap ''failed to sync WAL'' ErrSync), w1)
               else (Inr (nextIndex w), w1\<lparr>nextIndex := nextIndex w + 1\<rparr>))"

definition LogAddNode ::
  "append_io \<Rightarrow> NodeID \<Rightarrow> string \<Rightarrow> Properties \<Rightarrow> WAL \<Rightarrow> error option \<times> WAL" where
  "LogAddNode io nodeID label properties w =
     (case Append io OpAddNode (AddNodeData nodeID label properties) w of
        (Inl err, w') \<Rightarrow> (Some err, w')
      | (Inr _, w') \<Rightarrow> (None, w'))"

definition LogAddEdge ::
  "append_io \<Rightarrow> EdgeID \<Rightarrow> NodeID \<Rightarrow> NodeID \<Rightarrow> string \<Rightarrow> Properties \<Rightarrow> WAL
     \<Rightarrow> error option \<times> WAL" where
  "LogAddEdge io edgeID source target label properties w =
     (case Append io OpAddEdge (AddEdgeData edgeID source target label properties) w of
        (Inl err, w') \<Rightarrow> (Some err, w')
      | (Inr _, w') \<Rightarrow> (None, w'))"

definition LogDeleteNode :: "append_io \<Rightarrow> NodeID \<Rightarrow> WAL \<Rightarrow> error option \<times> WAL" where
  "LogDeleteNode io nodeID w =
     (case Append io OpDeleteNode (DeleteNodeData nodeID) w of
        (Inl err, w') \<Rightarrow> (Some err, w')
      | (Inr _, w') \<Rightarrow> (None, w'))"

definition LogDeleteEdge :: "append_io \<Rightarrow> EdgeID \<Rightarrow> WAL \<Rightarrow> error option \<times> WAL" where
  "LogDeleteEdge io edgeID w =
     (case Append io OpDeleteEdge (DeleteEdgeData edgeID) w of
        (Inl err, w') \<Rightarrow> (Some err, w')
      | (Inr _, w') \<Rightarrow> (None, w'))"

text \<open>\<open>Replay\<close> calls the handler on every record in file order and stops at its first
  error.\<close>

fun replayEntries :: "(LogEntry \<Rightarrow> 's \<Rightarrow> error + 's) \<Rightarrow> LogEntry list \<Rightarrow> 's \<Rightarrow> error + 's" where
  "replayEntries handler [] s = Inr s"
| "replayEntries handler (entry # entries) s =
     (case handler entry s of
        Inl err \<Rightarrow> Inl (ErrWrap ''handler failed for entry'' err)
      | Inr s' \<Rightarrow> replayEntries handler entries s')"

definition Replay :: "(LogEntry \<Rightarrow> 's \<Rightarrow> error + 's) \<Rightarrow> WAL \<Rightarrow> 's \<Rightarrow> error + 's" where
  "Replay handler w s = replayEntries handler (walFile w) s"

text \<open>
  \<open>Truncate\<close> reads the file, keeps the entries with \<open>Index >= beforeIndex\<close>, reopens the
  file with \<open>O_TRUNC\<close> and writes the kept entries back. \<open>TruncateWriteFails k\<close>: the write
  of the kept entry number \<open>k\<close> (from 0) fails, after \<open>k\<close> entries were written.
\<close>

definition Truncate :: "truncate_io \<Rightarrow> 64 word \<Rightarrow> WAL \<Rightarrow> error option \<times> WAL" where
  "Truncate io beforeIndex w =
     (if io = TruncateOpenFails then (Some ErrIO, w)
      else
        let entriesToKeep = filter (\<lambda>entry. Index entry \<ge> beforeIndex) (walFile w)
        in if io = TruncateCloseFails then (Some ErrIO, w)
           else if io = TruncateCreateFails then (Some ErrIO, w)
           else
             (case io of
                TruncateWriteFails k \<Rightarrow>
                  if k < length entriesToKeep
                  then (Some ErrIO, w\<lparr>walFile := take k entriesToKeep\<rparr>)
                  else (None, w\<lparr>walFile := entriesToKeep\<rparr>)
              | TruncateSyncFails \<Rightarrow> (Some ErrSync, w\<lparr>walFile := entriesToKeep\<rparr>)
              | _ \<Rightarrow> (None, w\<lparr>walFile := entriesToKeep\<rparr>)))"

definition GetCurrentIndex :: "WAL \<Rightarrow> 64 word" where
  "GetCurrentIndex w = nextIndex w - 1"


section \<open>Snapshots (pkg/wal/snapshot.go)\<close>

record SnapshotMetadata =
  MetaIndex :: "64 word"
  MetaNodeCount :: nat
  MetaEdgeCount :: nat

record Snapshot =
  Metadata :: SnapshotMetadata
  Nodes :: "Node list"
  Edges :: "Edge list"

text \<open>
  The state of a \<open>SnapshotManager\<close> is what its directory holds; only
  \<open>snapshot-latest.json\<close> is ever read back, so the state is that file's snapshot
  (\<open>None\<close>: no such file). A snapshot is stored as it is read back from its JSON text.
\<close>

type_synonym SnapshotManager = "Snapshot option"

datatype snapshot_io = SnapshotOK | SnapshotWriteFails | SnapshotCopyFails

definition jsonNode :: "Node \<Rightarrow> Node" where
  "jsonNode n = n\<lparr>Properties := jsonProperties (Properties n)\<rparr>"

definition jsonEdge :: "Edge \<Rightarrow> Edge" where
  "jsonEdge e = e\<lparr>EProperties := jsonProperties (EProperties e)\<rparr>"

text \<open>
  \<open>CreateSnapshot\<close> copies the two maps into slices by ranging over them; \<open>nodeOrder\<close> and
  \<open>edgeOrder\<close> are the orders in which the two loops visit the keys.
\<close>

definition CreateSnapshot ::
  "snapshot_io \<Rightarrow> NodeID list \<Rightarrow> EdgeID list \<Rightarrow> 64 word \<Rightarrow> (NodeID \<rightharpoonup> Node) \<Rightarrow> (EdgeID \<rightharpoonup> Edge)
     \<Rightarrow> SnapshotManager \<Rightarrow> error option \<times> SnapshotManager" where
  "CreateSnapshot io nodeOrder edgeOrder walIndex ns es sm =
     (let nodeSlice = List.map_filter ns nodeOrder;
          edgeSlice = List.map_filter es edgeOrder;
          snapshot = \<lparr>Metadata = \<lparr>MetaIndex = walIndex, MetaNodeCount = length nodeSlice,
                                   MetaEdgeCount = length edgeSlice\<rparr>,
                      Nodes = map jsonNode nodeSlice, Edges = map jsonEdge edgeSlice\<rparr>
      in if io = SnapshotWriteFails then (Some ErrIO, sm)
         else if \<not> (list_all (\<lambda>n. encodable (Properties n)) nodeSlice
                     \<and> list_all (\<lambda>e. encodable (EProperties e)) edgeSlice)
         then (Some ErrEncode, sm)
         else if io = SnapshotCopyFails then (Some ErrIO, None)
         else (None, Some snapshot))"

definition LoadLatestSnapshot :: "SnapshotManager \<Rightarrow> Snapshot option" where
  "LoadLatestSnapshot sm = sm"


section \<open>Persistent graph (pkg/storage/persistent.go)\<close>

record PersistentGraph =
  graph :: Graph
  wal :: WAL
  snapshotManager :: SnapshotManager
  walEnabled :: bool

definition convertProperties :: "Properties option \<Rightarrow> Properties" where
  "convertProperties data = (case data of None \<Rightarrow> Map.empty | Some m \<Rightarrow> m)"

text \<open>
  \<open>applyWALEntry\<close>. A type assertion on an absent key panics (\<open>ErrPanic\<close>); the key
  \<open>properties\<close> is read without an assertion. The adjacency lists are updated through
  the node map, after the edge is stored.
\<close>

definition applyWALEntry :: "LogEntry \<Rightarrow> Graph \<Rightarrow> error + Graph" where
  "applyWALEntry entry g =
     (case OpType entry of
        OpAddNode \<Rightarrow>
          (case (data_node_id (Data entry), data_label (Data entry)) of
             (Some nodeID, Some label) \<Rightarrow>
               let props = convertProperties (data_properties (Data entry));
                   node = SetProperties props (NewNode nodeID label);
                   g1 = g\<lparr>nodes := (nodes g)(nodeID \<mapsto> node)\<rparr>
               in Inr (if nodeID \<ge> nextNodeID g1 then g1\<lparr>nextNodeID := nodeID + 1\<rparr> else g1)
           | _ \<Rightarrow> Inl ErrPanic)
      | OpAddEdge \<Rightarrow>
          (case (data_edge_id (Data entry), data_source (Data entry),
                 data_target (Data entry), data_label (Data entry)) of
             (Some edgeID, Some source, Some target, Some label) \<Rightarrow>
               let props = convertProperties (data_properties (Data entry));
                   edge = EdgeSetProperties props (NewEdge edgeID source target label);
                   g1 = g\<lparr>edges := (edges g)(edgeID \<mapsto> edge)\<rparr>;
                   g2 = (if edgeID \<ge> nextEdgeID g1 then g1\<lparr>nextEdgeID := edgeID + 1\<rparr> else g1);
                   g3 = updateNode source (AddOutEdge edgeID) g2;
                   g4 = updateNode target (AddInEdge edgeID) g3
               in Inr g4
           | _ \<Rightarrow> Inl ErrPanic)
      | OpDeleteNode \<Rightarrow>
          (case data_node_id (Data entry) of
             Some nodeID \<Rightarrow> Inr (ignoreError (DeleteNode nodeID g) g)
           | None \<Rightarrow> Inl ErrPanic)
      | OpDeleteEdge \<Rightarrow>
          (case data_edge_id (Data entry) of
             Some edgeID \<Rightarrow> Inr (ignoreError (DeleteEdge edgeID g) g)
           | None \<Rightarrow> Inl ErrPanic)
      | _ \<Rightarrow> Inr g)"

definition restoreNode :: "Node \<Rightarrow> Graph \<Rightarrow> Graph" where
  "restoreNode node g =
     (let g1 = g\<lparr>nodes := (nodes g)(ID node \<mapsto> node)\<rparr>
      in if ID node \<ge> nextNodeID g1 then g1\<lparr>nextNodeID := ID node + 1\<rparr> else g1)"

definition restoreEdge :: "Edge \<Rightarrow> Graph \<Rightarrow> Graph" where
  "restoreEdge edge g =
     (let g1 = g\<lparr>edges := (edges g)(EID edge \<mapsto> edge)\<rparr>
      in if EID edge \<ge> nextEdgeID g1 then g1\<lparr>nextEdgeID := EID edge + 1\<rparr> else g1)"

text \<open>\<open>Recover\<close>: \<open>walEnabled\<close> is false while it runs and true again when it returns.\<close>

definition Recover :: "PersistentGraph \<Rightarrow> error option \<times> PersistentGraph" where
  "Recover pg =
     (let g1 = (case LoadLatestSnapshot (snapshotManager pg) of
                  None \<Rightarrow> graph pg
                | Some snapshot \<Rightarrow>
                    fold restoreEdge (Edges snapshot) (fold restoreNode (Nodes snapshot) (graph pg)))
      in case Replay applyWALEntry (wal pg) g1 of
           Inl err \<Rightarrow> (Some (ErrWrap ''failed to replay WAL'' err), pg\<lparr>graph := g1, walEnabled := True\<rparr>)
         | Inr g2 \<Rightarrow> (None, pg\<lparr>graph := g2, walEnabled := True\<rparr>))"

text \<open>\<open>NewPersistentGraph walDir snapshotDir\<close>, the two directories given by what they hold.\<close>

definition NewPersistentGraph :: "LogEntry list \<Rightarrow> SnapshotManager \<Rightarrow> error + PersistentGraph" where
  "NewPersistentGraph walDir snapshotDir =
     (case Recover \<lparr>graph = NewGraph, wal = NewWAL walDir, snapshotManager = snapshotDir,
                    walEnabled = True\<rparr> of
        (Some err, pg) \<Rightarrow> Inl (ErrWrap ''failed to recover'' err)
      | (None, pg) \<Rightarrow> Inr pg)"

text \<open>What \<open>Close\<close> leaves on disk in the two directories.\<close>

definition Close :: "PersistentGraph \<Rightarrow> LogEntry list \<times> SnapshotManager" where
  "Close pg = (walFile (wal pg), snapshotManager pg)"

definition PersistentGraph_AddNode ::
  "append_io \<Rightarrow> string \<Rightarrow> Properties \<Rightarrow> PersistentGraph \<Rightarrow> (error + Node) \<times> PersistentGraph" where
  "PersistentGraph_AddNode io label properties pg =
     (case AddNode label properties (graph pg) of
        (node, g1) \<Rightarrow>
          if walEnabled pg then
            (case LogAddNode io (ID node) label properties (wal pg) of
               (Some err, w1) \<Rightarrow>
                 (Inl (ErrWrap ''failed to log node addition'' err),
                  pg\<lparr>graph := ignoreError (DeleteNode (ID node) g1) g1, wal := w1\<rparr>)
             | (None, w1) \<Rightarrow> (Inr node, pg\<lparr>graph := g1, wal := w1\<rparr>))
          else (Inr node, pg\<lparr>graph := g1\<rparr>))"

definition PersistentGraph_AddEdge ::
  "append_io \<Rightarrow> NodeID \<Rightarrow> NodeID \<Rightarrow> string \<Rightarrow> Properties \<Rightarrow> PersistentGraph
     \<Rightarrow> (error + Edge) \<times> PersistentGraph" where
  "PersistentGraph_AddEdge io source target label properties pg =
     (case AddEdge source target label properties (graph pg) of
        Inl err \<Rightarrow> (Inl err, pg)
      | Inr (edge, g1) \<Rightarrow>
          if walEnabled pg then
            (case LogAddEdge io (EID edge) source target label properties (wal pg) of
               (Some err, w1) \<Rightarrow>
                 (Inl (ErrWrap ''failed to log edge addition'' err),
                  pg\<lparr>graph := ignoreError (DeleteEdge (EID edge) g1) g1, wal := w1\<rparr>)
             | (None, w1) \<Rightarrow> (Inr edge, pg\<lparr>graph := g1, wal := w1\<rparr>))
          else (Inr edge, pg\<lparr>graph := g1\<rparr>))"

definition PersistentGraph_DeleteNode ::
  "append_io \<Rightarrow> NodeID \<Rightarrow> PersistentGraph \<Rightarrow> error option \<times> PersistentGraph" where
  "PersistentGraph_DeleteNode io i pg =
     (case DeleteNode i (graph pg) of
        Inl err \<Rightarrow> (Some err, pg)
      | Inr g1 \<Rightarrow>
          if walEnabled pg then
            (case LogDeleteNode io i (wal pg) of
               (Some err, w1) \<Rightarrow>
                 (Some (ErrWrap ''failed to log node deletion'' err), pg\<lparr>graph := g1, wal := w1\<rparr>)
             | (None, w1) \<Rightarrow> (None, pg\<lparr>graph := g1, wal := w1\<rparr>))
          else (None, pg\<lparr>graph := g1\<rparr>))"

definition PersistentGraph_DeleteEdge ::
  "append_io \<Rightarrow> EdgeID \<Rightarrow> PersistentGraph \<Rightarrow> error option \<times> PersistentGraph" where
  "PersistentGraph_DeleteEdge io i pg =
     (case DeleteEdge i (graph pg) of
        Inl err \<Rightarrow> (Some err, pg)
      | Inr g1 \<Rightarrow>
          if walEnabled pg then
            (case LogDeleteEdge io i (wal pg) of
               (Some err, w1) \<Rightarrow>
                 (Some (ErrWrap ''failed to log edge deletion'' err), pg\<lparr>graph := g1, wal := w1\<rparr>)
             | (None, w1) \<Rightarrow> (None, pg\<lparr>graph := g1, wal := w1\<rparr>))
          else (None, pg\<lparr>graph := g1\<rparr>))"

definition PersistentGraph_Snapshot ::
  "snapshot_io \<Rightarrow> truncate_io \<Rightarrow> NodeID list \<Rightarrow> EdgeID list \<Rightarrow> PersistentGraph
     \<Rightarrow> error option \<times> PersistentGraph" where
  "PersistentGraph_Snapshot sio tio nodeOrder edgeOrder pg =
     (let walIndex = GetCurrentIndex (wal pg)
      in case CreateSnapshot sio nodeOrder edgeOrder walIndex (nodes (graph pg))
                (edges (graph pg)) (snapshotManager pg) of
           (Some err, sm1) \<Rightarrow>
             (Some (ErrWrap ''failed to create snapshot'' err), pg\<lparr>snapshotManager := sm1\<rparr>)
         | (None, sm1) \<Rightarrow>
             (case Truncate tio walIndex (wal pg) of
                (Some err, w1) \<Rightarrow>
                  (Some (ErrWrap ''failed to truncate WAL'' err),
                   pg\<lparr>snapshotManager := sm1, wal := w1\<rparr>)
              | (None, w1) \<Rightarrow> (None, pg\<lparr>snapshotManager := sm1, wal := w1\<rparr>)))"


subsection \<open>Sequences of mutations and the JSON image of a graph\<close>

text \<open>
  A step is a mutating call of the persistent graph together with the outcome of its system
  calls; \<open>runMutations\<close> runs the steps in order and is \<open>None\<close> as soon as a call returns
  an error. \<open>jsonGraph g\<close> is \<open>g\<close> with every property value replaced by what its JSON text
  is read back as. \<open>recoverable pg\<close>: the log is enabled, no snapshot was taken, and
  replaying the log on a new graph gives the JSON image of the graph in memory.
  \<open>encodableGraph g\<close>: every property value in \<open>g\<close> has a JSON encoding.
\<close>

datatype Mutation =
    MutAddNode string Properties
  | MutAddEdge NodeID NodeID string Properties
  | MutDeleteNode NodeID
  | MutDeleteEdge EdgeID

fun applyMutation :: "append_io \<Rightarrow> Mutation \<Rightarrow> PersistentGraph \<Rightarrow> error option \<times> PersistentGraph" where
  "applyMutation io (MutAddNode label properties) pg =
     (case PersistentGraph_AddNode io label properties pg of
        (Inl err, pg') \<Rightarrow> (Some err, pg')
      | (Inr node, pg') \<Rightarrow> (None, pg'))"
| "applyMutation io (MutAddEdge source target label properties) pg =
     (case PersistentGraph_AddEdge io source target label properties pg of
        (Inl err, pg') \<Rightarrow> (Some err, pg')
      | (Inr edge, pg') \<Rightarrow> (None, pg'))"
| "applyMutation io (MutDeleteNode i) pg = PersistentGraph_DeleteNode io i pg"
| "applyMutation io (MutDeleteEdge i) pg = PersistentGraph_DeleteEdge io i pg"


definition jsonGraph :: "Graph \<Rightarrow> Graph" where
  "jsonGraph g = g\<lparr>nodes := map_option jsonNode \<circ> nodes g, edges := map_option jsonEdge \<circ> edges g\<rparr>"





subsection \<open>Sessions with snapshots and restarts\<close>

text \<open>
  A session is a sequence of calls of the persistent graph in which every system call
  succeeds: a mutation, \<open>Snapshot\<close> (with the orders in which \<open>CreateSnapshot\<close> ranges over
  the two maps), or \<open>Close\<close> followed by \<open>NewPersistentGraph\<close> on the same two
  directories. \<open>session\<close> stops at the first call that returns an error.
\<close>

definition reopen :: "PersistentGraph \<Rightarrow> error + PersistentGraph" where
  "reopen pg = (case Close pg of (walDir, snapshotDir) \<Rightarrow> NewPersistentGraph walDir snapshotDir)"

datatype Call =
    Mutate Mutation
  | TakeSnapshot "NodeID list" "EdgeID list"
  | CloseAndReopen

fun call :: "Call \<Rightarrow> PersistentGraph \<Rightarrow> error + PersistentGraph" where
  "call (Mutate m) pg =
     (case applyMutation AppendOK m pg of (Some err, pg') \<Rightarrow> Inl err | (None, pg') \<Rightarrow> Inr pg')"
| "call (TakeSnapshot nodeOrder edgeOrder) pg =
     (case PersistentGraph_Snapshot SnapshotOK TruncateOK nodeOrder edgeOrder pg of
        (Some err, pg') \<Rightarrow> Inl err
      | (None, pg') \<Rightarrow> Inr pg')"
| "call CloseAndReopen pg = reopen pg"

fun session :: "Call list \<Rightarrow> PersistentGraph \<Rightarrow> error + PersistentGraph" where
  "session [] pg = Inr pg"
| "session (c # cs) pg = (case call c pg of Inl err \<Rightarrow> Inl err | Inr pg' \<Rightarrow> session cs pg')"

text \<open>
  Two nodes and an edge between them; a snapshot and a restart; the edge is deleted; a
  second snapshot and restart; a third node and an edge from the second node to it.
\<close>

definition staleAdjacencySession :: "Call list" where
  "staleAdjacencySession =
     [Mutate (MutAddNode ''A'' Map.empty),
      Mutate (MutAddNode ''B'' Map.empty),
      Mutate (MutAddEdge 1 2 ''R'' Map.empty),
      TakeSnapshot [1, 2] [1],
      CloseAndReopen,
      Mutate (MutDeleteEdge 1),
      TakeSnapshot [1, 2] [],
      CloseAndReopen,
      Mutate (MutAddNode ''C'' Map.empty),
      Mutate (MutAddEdge 2 3 ''S'' Map.empty)]"


section \<open>Query lexer (pkg/query/lexer.go)\<close>

datatype TokenType =
    TokenEOF | TokenIllegal
  | TokenMatch | TokenWhere | TokenReturn | TokenLimit | TokenOrderBy | TokenAnd | TokenOr
  | TokenIdentifier | TokenString | TokenNumber | TokenTrue | TokenFalse
  | TokenEqual | TokenNotEqual | TokenLess | TokenLessEqual | TokenGreater | TokenGreaterEqual
  | TokenLeftParen | TokenRightParen | TokenLeftBracket | TokenRightBracket
  | TokenLeftBrace | TokenRightBrace | TokenComma | TokenDot | TokenColon
  | TokenArrow | TokenLeftArrow | TokenDash | TokenStar | TokenDotDot

record Token =
  Type :: TokenType
  Literal :: string
  Line :: nat
  Column :: nat

text \<open>
  The lexer reads a Go string byte by byte; a \<open>char\<close> is a byte. \<open>ch = 0\<close> stands for the
  end of the input.
\<close>

record Lexer =
  input :: string
  position :: nat
  readPosition :: nat
  ch :: char
  line :: nat
  column :: nat

definition readChar :: "Lexer \<Rightarrow> Lexer" where
  "readChar l =
     (let c = (if readPosition l \<ge> length (input l) then CHR 0x00
               else input l ! readPosition l);
          l1 = l\<lparr>ch := c, position := readPosition l, readPosition := readPosition l + 1,
                 column := column l + 1\<rparr>
      in if c = CHR 0x0A then l1\<lparr>line := line l1 + 1, column := 0\<rparr> else l1)"

definition NewLexer :: "string \<Rightarrow> Lexer" where
  "NewLexer inp =
     readChar \<lparr>input = inp, position = 0, readPosition = 0, ch = CHR 0x00, line = 1, column = 0\<rparr>"

definition peekChar :: "Lexer \<Rightarrow> char" where
  "peekChar l =
     (if readPosition l \<ge> length (input l) then CHR 0x00 else input l ! readPosition l)"

definition newToken :: "Lexer \<Rightarrow> TokenType \<Rightarrow> string \<Rightarrow> Token" where
  "newToken l tokenType literal =
     \<lparr>Type = tokenType, Literal = literal, Line = line l, Column = column l\<rparr>"

definition isLetter :: "char \<Rightarrow> bool" where
  "isLetter b = ((CHR ''a'' \<le> b \<and> b \<le> CHR ''z'') \<or> (CHR ''A'' \<le> b \<and> b \<le> CHR ''Z''))"

definition isDigit :: "char \<Rightarrow> bool" where
  "isDigit c \<longleftrightarrow> CHR ''0'' \<le> c \<and> c \<le> CHR ''9''"

definition isWhitespace :: "char \<Rightarrow> bool" where
  "isWhitespace c \<longleftrightarrow> c = CHR '' '' \<or> c = CHR 0x09 \<or> c = CHR 0x0A \<or> c = CHR 0x0D"

definition isIdentifierChar :: "char \<Rightarrow> bool" where
  "isIdentifierChar c \<longleftrightarrow> isLetter c \<or> isDigit c \<or> c = CHR ''_''"

text \<open>
  The loops of the lexer call \<open>readChar\<close> while the current byte satisfies a condition
  that the end-of-input byte 0 does not satisfy; \<open>loopMeasure\<close> bounds the calls left.
\<close>

definition loopMeasure :: "(char \<Rightarrow> bool) \<Rightarrow> Lexer \<Rightarrow> nat" where
  "loopMeasure cond l = (if cond (ch l) then Suc (length (input l) - readPosition l) else 0)"

lemma loopMeasure_readChar:
  assumes "\<not> cond (CHR 0x00)" and "cond (ch l)"
  shows "loopMeasure cond (readChar l) < loopMeasure cond l"
  using assms by (auto simp: loopMeasure_def readChar_def Let_def)

function skipWhitespace :: "Lexer \<Rightarrow> Lexer" where
  "skipWhitespace l = (if isWhitespace (ch l) then skipWhitespace (readChar l) else l)"
  by pat_completeness auto
termination
  by (relation "measure (loopMeasure isWhitespace)")
     (simp_all add: loopMeasure_readChar isWhitespace_def)

declare skipWhitespace.simps [simp del]

function readIdentifierChars :: "Lexer \<Rightarrow> Lexer" where
  "readIdentifierChars l =
     (if isLetter (ch l) \<or> isDigit (ch l) \<or> ch l = CHR ''_''
      then readIdentifierChars (readChar l) else l)"
  by pat_completeness auto
termination
  by (relation "measure (loopMeasure (\<lambda>c. isLetter c \<or> isDigit c \<or> c = CHR ''_''))")
     (simp_all add: loopMeasure_readChar isLetter_def isDigit_def less_eq_char_def)

declare readIdentifierChars.simps [simp del]

function readDigits :: "Lexer \<Rightarrow> Lexer" where
  "readDigits l = (if isDigit (ch l) then readDigits (readChar l) else l)"
  by pat_completeness auto
termination
  by (relation "measure (loopMeasure isDigit)")
     (simp_all add: loopMeasure_readChar isDigit_def less_eq_char_def)

declare readDigits.simps [simp del]

text \<open>The slice \<open>l.input[from:to]\<close>.\<close>

definition slice :: "string \<Rightarrow> nat \<Rightarrow> nat \<Rightarrow> string" where
  "slice s from to = take (to - from) (drop from s)"

definition readIdentifier :: "Lexer \<Rightarrow> string \<times> Lexer" where
  "readIdentifier l =
     (let start = position l; l' = readIdentifierChars l
      in (slice (input l') start (position l'), l'))"

definition readNumber :: "Lexer \<Rightarrow> string \<times> Lexer" where
  "readNumber l =
     (let start = position l;
          l1 = readDigits l;
          l2 = (if ch l1 = CHR ''.'' \<and> isDigit (peekChar l1) then readDigits (readChar l1) else l1)
      in (slice (input l2) start (position l2), l2))"

function readStringChars :: "char \<Rightarrow> Lexer \<Rightarrow> Lexer" where
  "readStringChars quote l =
     (let l1 = readChar l
      in if ch l1 = quote \<or> ch l1 = CHR 0x00 then l1
         else readStringChars quote
                (if ch l1 = CHR 0x5C \<and> peekChar l1 = quote then readChar l1 else l1))"
  by pat_completeness auto
termination
  by (relation "measure (\<lambda>(quote, l). length (input l) - readPosition l)")
     (auto simp: readChar_def Let_def split: if_splits)

declare readStringChars.simps [simp del]

definition readString :: "char \<Rightarrow> Lexer \<Rightarrow> string \<times> Lexer" where
  "readString quote l =
     (let start = position l + 1; l' = readStringChars quote l
      in (slice (input l') start (position l'), l'))"

text \<open>
  \<open>strings.ToUpper\<close> on the bytes of an identifier, which are ASCII letters, digits and
  underscores: a lower-case letter becomes its upper-case letter.
\<close>

definition toUpperByte :: "char \<Rightarrow> char" where
  "toUpperByte c =
     (if CHR ''a'' \<le> c \<and> c \<le> CHR ''z'' then char_of (of_char c - (32::nat)) else c)"

definition ToUpper :: "string \<Rightarrow> string" where
  "ToUpper s = map toUpperByte s"

definition keywordTable :: "string \<rightharpoonup> TokenType" where
  "keywordTable = map_of
     [(''MATCH'', TokenMatch), (''WHERE'', TokenWhere), (''RETURN'', TokenReturn),
      (''LIMIT'', TokenLimit), (''ORDER'', TokenOrderBy), (''BY'', TokenOrderBy),
      (''AND'', TokenAnd), (''OR'', TokenOr), (''true'', TokenTrue), (''false'', TokenFalse)]"

definition lookupKeyword :: "string \<Rightarrow> TokenType" where
  "lookupKeyword ident =
     (case keywordTable (ToUpper ident) of Some tok \<Rightarrow> tok | None \<Rightarrow> TokenIdentifier)"

text \<open>
  \<open>string(l.ch)\<close> converts the byte to the UTF-8 text of the code point of that value: one
  byte below 128, two bytes from 128 on.
\<close>

definition stringOfByte :: "char \<Rightarrow> string" where
  "stringOfByte c =
     (if (of_char c :: nat) < 128 then [c]
      else [char_of (192 + (of_char c :: nat) div 64), char_of (128 + (of_char c :: nat) mod 64)])"

text \<open>A token of two bytes: the second byte is read, the token is made, and the lexer
  moves past it.\<close>

definition twoByteToken :: "Lexer \<Rightarrow> TokenType \<Rightarrow> Token \<times> Lexer" where
  "twoByteToken l tokenType =
     (let c = ch l; l' = readChar l
      in (newToken l' tokenType (stringOfByte c @ stringOfByte (ch l')), readChar l'))"

definition oneByteToken :: "Lexer \<Rightarrow> TokenType \<Rightarrow> Token \<times> Lexer" where
  "oneByteToken l tokenType = (newToken l tokenType (stringOfByte (ch l)), readChar l)"

definition NextToken :: "Lexer \<Rightarrow> Token \<times> Lexer" where
  "NextToken l0 =
     (let l = skipWhitespace l0;
          tok = \<lparr>Type = TokenEOF, Literal = [], Line = line l, Column = column l\<rparr>
      in if ch l = CHR ''('' then oneByteToken l TokenLeftParen
         else if ch l = CHR '')'' then oneByteToken l TokenRightParen
         else if ch l = CHR ''['' then oneByteToken l TokenLeftBracket
         else if ch l = CHR '']'' then oneByteToken l TokenRightBracket
         else if ch l = CHR ''{'' then oneByteToken l TokenLeftBrace
         else if ch l = CHR ''}'' then oneByteToken l TokenRightBrace
         else if ch l = CHR '','' then oneByteToken l TokenComma
         else if ch l = CHR ''.'' then
           (if peekChar l = CHR ''.'' then twoByteToken l TokenDotDot
            else oneByteToken l TokenDot)
         else if ch l = CHR '':'' then oneByteToken l TokenColon
         else if ch l = CHR ''*'' then oneByteToken l TokenStar
         else if ch l = CHR ''-'' then
           (if peekChar l = CHR ''>'' then twoByteToken l TokenArrow
            else oneByteToken l TokenDash)
         else if ch l = CHR ''<'' then
           (if peekChar l = CHR ''-'' then twoByteToken l TokenLeftArrow
            else if peekChar l = CHR ''='' then twoByteToken l TokenLessEqual
            else oneByteToken l TokenLess)
         else if ch l = CHR ''>'' then
           (if peekChar l = CHR ''='' then twoByteToken l TokenGreaterEqual
            else oneByteToken l TokenGreater)
         else if ch l = CHR ''='' then oneByteToken l TokenEqual
         else if ch l = CHR ''!'' then
           (if peekChar l = CHR ''='' then twoByteToken l TokenNotEqual
            else oneByteToken l TokenIllegal)
         else if ch l = CHR 0x22 \<or> ch l = CHR 0x27 then
           (case readString (ch l) l of
              (literal, l') \<Rightarrow> (tok\<lparr>Type := TokenString, Literal := literal\<rparr>, readChar l'))
         else if ch l = CHR 0x00 then (tok\<lparr>Literal := [], Type := TokenEOF\<rparr>, readChar l)
         else if isLetter (ch l) then
           (case readIdentifier l of
              (literal, l') \<Rightarrow> (tok\<lparr>Literal := literal, Type := lookupKeyword literal\<rparr>, l'))
         else if isDigit (ch l) then
           (case readNumber l of
              (literal, l') \<Rightarrow> (tok\<lparr>Type := TokenNumber, Literal := literal\<rparr>, l'))
         else oneByteToken l TokenIllegal)"


subsection \<open>The token stream\<close>

text \<open>
  \<open>lexTokens l\<close> are the tokens that successive calls of \<open>NextToken\<close> return, up to the
  first \<open>TokenEOF\<close>. Every call reads at least one byte (\<open>advanced\<close>), which bounds the
  number of calls (\<open>lexMeasure\<close>). \<open>Tokenize\<close> gives the types and literals of the tokens
  of an input.
\<close>

definition lexMeasure :: "Lexer \<Rightarrow> nat" where
  "lexMeasure l =
     2 * (Suc (length (input l)) - readPosition l) + (if ch l = CHR 0x00 then 0 else 1)"

definition advanced :: "Lexer \<Rightarrow> Lexer \<Rightarrow> bool" where
  "advanced l l' \<longleftrightarrow>
     input l' = input l \<and> readPosition l < readPosition l'
     \<and> (length (input l') < readPosition l' \<longrightarrow> ch l' = CHR 0x00)"

lemma readChar_fields [simp]:
  "input (readChar l) = input l"
  "position (readChar l) = readPosition l"
  "readPosition (readChar l) = Suc (readPosition l)"
  "ch (readChar l) = (if length (input l) \<le> readPosition l then CHR 0x00 else input l ! readPosition l)"
  by (simp_all add: readChar_def Let_def)

lemma advanced_readChar: "advanced l (readChar l)"
  by (simp add: advanced_def)

lemma advanced_step: "advanced l l1 \<Longrightarrow> advanced l (readChar l1)"
  by (simp add: advanced_def)

lemma advanced_skipWhitespace: "advanced l0 l \<Longrightarrow> advanced l0 (skipWhitespace l)"
  by (induction l rule: skipWhitespace.induct) (subst skipWhitespace.simps, simp add: advanced_step)

lemma advanced_readIdentifierChars: "advanced l0 l \<Longrightarrow> advanced l0 (readIdentifierChars l)"
  by (induction l rule: readIdentifierChars.induct)
     (subst readIdentifierChars.simps, simp add: advanced_step)

lemma advanced_readDigits: "advanced l0 l \<Longrightarrow> advanced l0 (readDigits l)"
  by (induction l rule: readDigits.induct) (subst readDigits.simps, simp add: advanced_step)

lemma advanced_readStringChars_aux:
  "l0 = l \<or> advanced l0 l \<Longrightarrow> advanced l0 (readStringChars quote l)"
proof (induction quote l rule: readStringChars.induct)
  case (1 quote l)
  have a1: "advanced l0 (readChar l)"
    using "1.prems" by (auto simp: advanced_readChar advanced_step)
  show ?case
  proof (cases "ch (readChar l) = quote \<or> ch (readChar l) = CHR 0x00")
    case True
    then show ?thesis using a1 by (subst readStringChars.simps) (simp add: Let_def)
  next
    case False
    let ?l2 = "if ch (readChar l) = CHR 0x5C \<and> peekChar (readChar l) = quote
               then readChar (readChar l) else readChar l"
    have "advanced l0 ?l2" using a1 by (simp add: advanced_step)
    then have "advanced l0 (readStringChars quote ?l2)"
      using "1.IH" [OF refl False] by blast
    then show ?thesis using False by (subst readStringChars.simps) (simp add: Let_def)
  qed
qed

lemma advanced_readStringChars: "advanced l (readStringChars quote l)"
  by (rule advanced_readStringChars_aux) simp

lemma skipWhitespace_cases: "skipWhitespace l = l \<or> advanced l (skipWhitespace l)"
proof (cases "isWhitespace (ch l)")
  case True
  then have "skipWhitespace l = skipWhitespace (readChar l)"
    by (subst skipWhitespace.simps) simp
  with advanced_skipWhitespace [OF advanced_readChar [of l]] show ?thesis by simp
next
  case False
  then show ?thesis by (subst skipWhitespace.simps) simp
qed

lemma advanced_trans: "advanced a b \<Longrightarrow> advanced b c \<Longrightarrow> advanced a c"
  by (auto simp: advanced_def)

lemma readIdentifier_advanced:
  "isLetter (ch l) \<Longrightarrow> advanced l (snd (readIdentifier l))"
  using advanced_readIdentifierChars [OF advanced_readChar [of l]]
  by (simp add: readIdentifier_def Let_def readIdentifierChars.simps [of l])

lemma readNumber_advanced:
  assumes "isDigit (ch l)"
  shows "advanced l (snd (readNumber l))"
proof -
  have "readDigits l = readDigits (readChar l)"
    using assms by (subst readDigits.simps) simp
  then have "advanced l (readDigits l)"
    using advanced_readDigits [OF advanced_readChar [of l]] by simp
  then show ?thesis
    by (auto simp: readNumber_def Let_def intro: advanced_readDigits advanced_step)
qed

lemma readString_advanced: "advanced l (readChar (snd (readString quote l)))"
  by (simp add: readString_def Let_def advanced_step advanced_readStringChars)

lemma oneByteToken_advanced: "advanced l (snd (oneByteToken l t))"
  by (simp add: oneByteToken_def advanced_readChar)

lemma twoByteToken_advanced: "advanced l (snd (twoByteToken l t))"
  by (simp add: twoByteToken_def Let_def advanced_readChar advanced_step)

lemma NextToken_after_skip: "advanced (skipWhitespace l0) (snd (NextToken l0))"
  by (simp add: NextToken_def Let_def case_prod_beta oneByteToken_advanced
      twoByteToken_advanced readString_advanced readIdentifier_advanced readNumber_advanced
      advanced_readChar)

lemma lookupKeyword_range:
  "lookupKeyword s \<in> {TokenMatch, TokenWhere, TokenReturn, TokenLimit, TokenOrderBy, TokenAnd,
                        TokenOr, TokenTrue, TokenFalse, TokenIdentifier}"
  by (auto simp: lookupKeyword_def keywordTable_def split: option.splits if_splits)

lemma lookupKeyword_not_EOF [simp]: "lookupKeyword s \<noteq> TokenEOF"
  using lookupKeyword_range [of s] by auto

lemma NextToken_EOF_iff:
  "Type (fst (NextToken l0)) = TokenEOF \<longleftrightarrow> ch (skipWhitespace l0) = CHR 0x00"
  by (simp add: NextToken_def Let_def case_prod_beta oneByteToken_def twoByteToken_def newToken_def
      isLetter_def isDigit_def less_eq_char_def)

lemma NextToken_lexMeasure:
  assumes "Type (fst (NextToken l)) \<noteq> TokenEOF"
  shows "lexMeasure (snd (NextToken l)) < lexMeasure l"
proof -
  let ?l1 = "skipWhitespace l" and ?l' = "snd (NextToken l)"
  have nonzero: "ch ?l1 \<noteq> CHR 0x00"
    using assms by (simp add: NextToken_EOF_iff)
  have adv1: "advanced ?l1 ?l'" by (rule NextToken_after_skip)
  have adv: "advanced l ?l'"
    using skipWhitespace_cases [of l] adv1 by (auto intro: advanced_trans)
  show ?thesis
  proof (cases "readPosition l \<le> length (input l)")
    case True
    with adv show ?thesis by (auto simp: lexMeasure_def advanced_def)
  next
    case False
    have "skipWhitespace l = l"
    proof (rule ccontr)
      assume "skipWhitespace l \<noteq> l"
      with skipWhitespace_cases [of l] have "advanced l ?l1" by simp
      with False have "ch ?l1 = CHR 0x00" by (simp add: advanced_def)
      with nonzero show False by simp
    qed
    with nonzero have "ch l \<noteq> CHR 0x00" by simp
    moreover from adv False have "ch ?l' = CHR 0x00" by (simp add: advanced_def)
    ultimately show ?thesis using adv False by (simp add: lexMeasure_def advanced_def)
  qed
qed

lemma NextToken_progress:
  "(tok, l') = NextToken l \<Longrightarrow> Type tok \<noteq> TokenEOF \<Longrightarrow> lexMeasure l' < lexMeasure l"
  using NextToken_lexMeasure [of l] by (cases "NextToken l") auto

function lexTokens :: "Lexer \<Rightarrow> Token list" where
  "lexTokens l =
     (case NextToken l of
        (tok, l') \<Rightarrow> if Type tok = TokenEOF then [] else tok # lexTokens l')"
  by pat_completeness auto
termination
  by (relation "measure lexMeasure") (auto dest: NextToken_progress)

declare lexTokens.simps [simp del]

definition Tokenize :: "string \<Rightarrow> (TokenType \<times> string) list" where
  "Tokenize inp = map (\<lambda>tok. (Type tok, Literal tok)) (lexTokens (NewLexer inp))"


subsection \<open>Re-lexing the literals of a token stream\<close>

text \<open>
  \<open>joinLiterals ts\<close> is the text made of the literals of the tokens \<open>ts\<close>, in order, with
  one space between two neighbours.
\<close>

fun joinLiterals :: "(TokenType \<times> string) list \<Rightarrow> string" where
  "joinLiterals [] = []"
| "joinLiterals [t] = snd t"
| "joinLiterals (t # u # ts) = snd t @ CHR '' '' # joinLiterals (u # ts)"

text \<open>
  The definitions below describe one call of \<open>NextToken\<close> in terms of the unread part of
  the input; they are what the statements about \<open>joinLiterals\<close> are proved with.
  \<open>lexerOK\<close> is the invariant of the lexer state: \<open>readPosition\<close> is one past \<open>position\<close>,
  and \<open>ch\<close> is the byte at \<open>position\<close>, or NUL past the end. \<open>remaining l\<close> is the input
  from \<open>position\<close> on. \<open>numberSplit s\<close> is the literal that \<open>readNumber\<close> cuts off the front
  of \<open>s\<close>, and what is left. When the unread input, after its leading whitespace, is
  \<open>s\<close>, the token that \<open>NextToken\<close> returns has the type and literal given by
  \<open>scanToken s\<close>, which also gives the input left unread; \<open>scanToken s\<close> is \<open>None\<close> when \<open>s\<close>
  begins with a quote, where \<open>NextToken\<close> calls \<open>readString\<close>.
\<close>

definition lexerOK :: "Lexer \<Rightarrow> bool" where
  "lexerOK l \<longleftrightarrow>
     readPosition l = Suc (position l)
     \<and> ch l = (if position l < length (input l) then input l ! position l else CHR 0x00)"

definition remaining :: "Lexer \<Rightarrow> string" where
  "remaining l = drop (position l) (input l)"

definition numberSplit :: "string \<Rightarrow> string \<times> string" where
  "numberSplit s =
     (let ds = takeWhile isDigit s; r = dropWhile isDigit s
      in case r of
           c # d # r' \<Rightarrow>
             if c = CHR ''.'' \<and> isDigit d
             then (ds @ c # takeWhile isDigit (d # r'), dropWhile isDigit (d # r'))
             else (ds, r)
         | _ \<Rightarrow> (ds, r))"

definition scanToken :: "string \<Rightarrow> (TokenType \<times> string \<times> string) option" where
  "scanToken s =
     (case s of
        [] \<Rightarrow> Some (TokenEOF, [], [])
      | c # cs \<Rightarrow>
          let d = (case cs of [] \<Rightarrow> CHR 0x00 | d # ds \<Rightarrow> d)
          in if c = CHR ''('' then Some (TokenLeftParen, [c], cs)
             else if c = CHR '')'' then Some (TokenRightParen, [c], cs)
             else if c = CHR ''['' then Some (TokenLeftBracket, [c], cs)
             else if c = CHR '']'' then Some (TokenRightBracket, [c], cs)
             else if c = CHR ''{'' then Some (TokenLeftBrace, [c], cs)
             else if c = CHR ''}'' then Some (TokenRightBrace, [c], cs)
             else if c = CHR '','' then Some (TokenComma, [c], cs)
             else if c = CHR ''.'' then
               (if d = CHR ''.'' then Some (TokenDotDot, [c, d], tl cs)
                else Some (TokenDot, [c], cs))
             else if c = CHR '':'' then Some (TokenColon, [c], cs)
             else if c = CHR ''*'' then Some (TokenStar, [c], cs)
             else if c = CHR ''-'' then
               (if d = CHR ''>'' then Some (TokenArrow, [c, d], tl cs)
                else Some (TokenDash, [c], cs))
             else if c = CHR ''<'' then
               (if d = CHR ''-'' then Some (TokenLeftArrow, [c, d], tl cs)
                else if d = CHR ''='' then Some (TokenLessEqual, [c, d], tl cs)
                else Some (TokenLess, [c], cs))
             else if c = CHR ''>'' then
               (if d = CHR ''='' then Some (TokenGreaterEqual, [c, d], tl cs)
                else Some (TokenGreater, [c], cs))
             else if c = CHR ''='' then Some (TokenEqual, [c], cs)
             else if c = CHR ''!'' then
               (if d = CHR ''='' then Some (TokenNotEqual, [c, d], tl cs)
                else Some (TokenIllegal, [c], cs))
             else if c = CHR 0x22 \<or> c = CHR 0x27 then None
             else if c = CHR 0x00 then Some (TokenEOF, [], cs)
             else if isLetter c then
               Some (lookupKeyword (takeWhile isIdentifierChar s),
                     takeWhile isIdentifierChar s, dropWhile isIdentifierChar s)
             else if isDigit c then Some (TokenNumber, fst (numberSplit s), snd (numberSplit s))
             else Some (TokenIllegal, stringOfByte c, cs))"

text \<open>
  The tokens other than strings: \<open>punctuation\<close> are the token types with a fixed literal;
  \<open>wordLiteral\<close> is the shape of the literal of an identifier or keyword, and
  \<open>numberLiteral\<close> that of a number. \<open>goodToken\<close> holds of a type and a literal that
  belong together in one of these three ways. \<open>separated r\<close>: the text \<open>r\<close> is empty or
  begins with a space.
\<close>

definition punctuation :: "(TokenType \<times> string) list" where
  "punctuation =
     [(TokenLeftParen, ''(''), (TokenRightParen, '')''), (TokenLeftBracket, ''[''),
      (TokenRightBracket, '']''), (TokenLeftBrace, ''{''), (TokenRightBrace, ''}''),
      (TokenComma, '',''), (TokenDot, ''.''), (TokenDotDot, ''..''), (TokenColon, '':''),
      (TokenStar, ''*''), (TokenDash, ''-''), (TokenArrow, ''->''), (TokenLeftArrow, ''<-''),
      (TokenLess, ''<''), (TokenLessEqual, ''<=''), (TokenGreater, ''>''),
      (TokenGreaterEqual, ''>=''), (TokenEqual, ''=''), (TokenNotEqual, ''!='')]"

definition numberLiteral :: "string \<Rightarrow> bool" where
  "numberLiteral lit \<longleftrightarrow>
     (\<exists>ds. ds \<noteq> [] \<and> list_all isDigit ds
        \<and> (lit = ds \<or> (\<exists>fs. fs \<noteq> [] \<and> list_all isDigit fs \<and> lit = ds @ CHR ''.'' # fs)))"

definition wordLiteral :: "string \<Rightarrow> bool" where
  "wordLiteral lit \<longleftrightarrow> lit \<noteq> [] \<and> isLetter (hd lit) \<and> list_all isIdentifierChar lit"

definition goodToken :: "TokenType \<times> string \<Rightarrow> bool" where
  "goodToken t \<longleftrightarrow>
     t \<in> set punctuation
     \<or> (wordLiteral (snd t) \<and> fst t = lookupKeyword (snd t))
     \<or> (fst t = TokenNumber \<and> numberLiteral (snd t))"

definition separated :: "string \<Rightarrow> bool" where
  "separated r \<longleftrightarrow> (case r of [] \<Rightarrow> True | c # cs \<Rightarrow> c = CHR '' '')"


section \<open>Expression evaluation (pkg/query/executor.go)\<close>

text \<open>
  A value during execution is a Go \<open>interface{}\<close>: a scalar, a \<open>*graph.Node\<close> or a
  \<open>*graph.Edge\<close>. Expressions are the four AST structs (\<open>LiteralExpr\<close> is the struct
  \<open>Literal\<close>).
\<close>

datatype Value = Scalar PropertyValue | NodeRef Node | EdgeRef Edge

datatype Expression =
    BinaryExpr Expression string Expression
  | PropertyAccess string string
  | LiteralExpr PropertyValue
  | Identifier string

type_synonym BindingTable = "string \<rightharpoonup> Value"

datatype exec_error =
    VariableNotFound string
  | NotNodeOrEdge string
  | AndRequiresBooleans
  | OrRequiresBooleans
  | UnknownOperator string

text \<open>
  Go's \<open><\<close> and \<open>>\<close> on \<open>float64\<close> (IEEE 754): false when an operand is NaN. \<open>float64_le\<close>
  and \<open>float64_ge\<close> are Go's \<open><=\<close> and \<open>>=\<close>, false when an operand is NaN as well.
\<close>

fun float64_less :: "float64 \<Rightarrow> float64 \<Rightarrow> bool" where
  "float64_less NaN _ = False"
| "float64_less _ NaN = False"
| "float64_less (Fin a) (Fin b) = (a < b)"
| "float64_less (Fin a) PosInf = True"
| "float64_less (Fin a) NegInf = False"
| "float64_less NegInf (Fin b) = True"
| "float64_less NegInf PosInf = True"
| "float64_less NegInf NegInf = False"
| "float64_less PosInf _ = False"

definition float64_greater :: "float64 \<Rightarrow> float64 \<Rightarrow> bool" where
  "float64_greater a b = float64_less b a"

definition float64_eq :: "float64 \<Rightarrow> float64 \<Rightarrow> bool" where
  "float64_eq a b \<longleftrightarrow> a \<noteq> NaN \<and> b \<noteq> NaN \<and> a = b"



text \<open>\<open>toFloat\<close>: the numeric cases of the type switch; everything else is 0.\<close>

fun toFloat :: "Value \<Rightarrow> float64" where
  "toFloat (Scalar (VInt i)) = float64_of_int i"
| "toFloat (Scalar (VInt64 i)) = float64_of_int i"
| "toFloat (Scalar (VFloat64 f)) = f"
| "toFloat _ = Fin 0"

definition compareNumbers :: "Value \<Rightarrow> Value \<Rightarrow> int" where
  "compareNumbers a b =
     (let v1 = toFloat a; v2 = toFloat b
      in if float64_less v1 v2 then -1
         else if float64_greater v1 v2 then 1
         else 0)"

text \<open>
  \<open>reflect.DeepEqual\<close> on two values: equal dynamic types and equal contents, floats
  compared with \<open>==\<close>. Two node (edge) pointers taken from one graph are equal when they
  are the same node (edge), that is, when the IDs are equal.
\<close>

fun DeepEqual :: "Value \<Rightarrow> Value \<Rightarrow> bool" where
  "DeepEqual (Scalar (VFloat64 a)) (Scalar (VFloat64 b)) = float64_eq a b"
| "DeepEqual (Scalar a) (Scalar b) = (a = b)"
| "DeepEqual (NodeRef a) (NodeRef b) = (ID a = ID b)"
| "DeepEqual (EdgeRef a) (EdgeRef b) = (EID a = EID b)"
| "DeepEqual _ _ = False"

fun asBool :: "Value \<Rightarrow> bool option" where
  "asBool (Scalar (VBool b)) = Some b"
| "asBool _ = None"

definition compareValues :: "Value \<Rightarrow> string \<Rightarrow> Value \<Rightarrow> exec_error + bool" where
  "compareValues left op right =
     (if op = ''='' then Inr (DeepEqual left right)
      else if op = ''!='' then Inr (\<not> DeepEqual left right)
      else if op = ''AND'' then
        (case (asBool left, asBool right) of
           (Some l, Some r) \<Rightarrow> Inr (l \<and> r)
         | _ \<Rightarrow> Inl AndRequiresBooleans)
      else if op = ''OR'' then
        (case (asBool left, asBool right) of
           (Some l, Some r) \<Rightarrow> Inr (l \<or> r)
         | _ \<Rightarrow> Inl OrRequiresBooleans)
      else if op = ''>'' then Inr (compareNumbers left right > 0)
      else if op = ''<'' then Inr (compareNumbers left right < 0)
      else if op = ''>='' then Inr (compareNumbers left right \<ge> 0)
      else if op = ''<='' then Inr (compareNumbers left right \<le> 0)
      else Inl (UnknownOperator op))"

fun evaluateExpression :: "Expression \<Rightarrow> BindingTable \<Rightarrow> exec_error + Value" where
  "evaluateExpression (LiteralExpr v) match = Inr (Scalar v)"
| "evaluateExpression (Identifier name) match =
     (case match name of
        None \<Rightarrow> Inl (VariableNotFound name)
      | Some val \<Rightarrow> Inr val)"
| "evaluateExpression (PropertyAccess variable property) match =
     (case match variable of
        None \<Rightarrow> Inl (VariableNotFound variable)
      | Some (NodeRef node) \<Rightarrow>
          (case GetProperty node property of
             None \<Rightarrow> Inr (Scalar VNil)
           | Some val \<Rightarrow> Inr (Scalar val))
      | Some (EdgeRef edge) \<Rightarrow>
          (case EdgeGetProperty edge property of
             None \<Rightarrow> Inr (Scalar VNil)
           | Some val \<Rightarrow> Inr (Scalar val))
      | Some (Scalar _) \<Rightarrow> Inl (NotNodeOrEdge variable))"
| "evaluateExpression (BinaryExpr left op right) match =
     (case evaluateExpression left match of
        Inl err \<Rightarrow> Inl err
      | Inr l \<Rightarrow>
     (case evaluateExpression right match of
        Inl err \<Rightarrow> Inl err
      | Inr r \<Rightarrow>
     (case compareValues l op r of
        Inl err \<Rightarrow> Inl err
      | Inr b \<Rightarrow> Inr (Scalar (VBool b)))))"


section \<open>Query AST (pkg/query/ast.go)\<close>

text \<open>
  The structs of the AST that the parser fills in. \<open>Direction\<close> is an \<open>int\<close> with
  \<open>DirectionOut = 0\<close>, the zero value of a new \<open>EdgePattern\<close>. The fields \<open>MinHops\<close>,
  \<open>MaxHops\<close> and \<open>OrderBy\<close>, which the parser never sets, are left out; field names carry
  a prefix where another struct has a field of the same name.
\<close>

datatype Direction = DirectionOut | DirectionIn | DirectionBoth

record NodePattern =
  npVariable :: string
  npLabel :: string
  npProperties :: Properties

record EdgePattern =
  epVariable :: string
  epType :: string
  epDirection :: Direction

record Pattern =
  patNodes :: "NodePattern list"
  patEdges :: "EdgePattern list"

record ReturnItem =
  itemExpr :: Expression
  itemAlias :: string

record ReturnClause =
  Items :: "ReturnItem list"
  Distinct :: bool

record Query =
  Match :: "Pattern list option"
  Where :: "Expression option"
  Return :: "ReturnClause option"
  Limit :: "int option"


section \<open>Query parser (pkg/query/parser.go)\<close>

text \<open>
  Every parsing method returns a value and an error; here it returns the error message, or
  the value with the parser state after the call. The messages are the constant parts of
  the formatted messages. \<open>parserMeasure\<close> bounds the calls of \<open>nextToken\<close> that can still
  return a token other than \<open>TokenEOF\<close>; every loop of the parser consumes a token in each
  round.
\<close>

record Parser =
  lexer :: Lexer
  current :: Token
  peek :: Token
  errors :: "string list"

definition zeroToken :: Token where
  "zeroToken = \<lparr>Type = TokenEOF, Literal = [], Line = 0, Column = 0\<rparr>"

definition nextToken :: "Parser \<Rightarrow> Parser" where
  "nextToken p =
     (case NextToken (lexer p) of
        (tok, l') \<Rightarrow> p\<lparr>current := peek p, peek := tok, lexer := l'\<rparr>)"

definition NewParser :: "string \<Rightarrow> Parser" where
  "NewParser inp =
     nextToken (nextToken \<lparr>lexer = NewLexer inp, current = zeroToken, peek = zeroToken,
                            errors = []\<rparr>)"

definition currentTokenIs :: "Parser \<Rightarrow> TokenType \<Rightarrow> bool" where
  "currentTokenIs p t \<longleftrightarrow> Type (current p) = t"

definition peekTokenIs :: "Parser \<Rightarrow> TokenType \<Rightarrow> bool" where
  "peekTokenIs p t \<longleftrightarrow> Type (peek p) = t"

definition parserMeasure :: "Parser \<Rightarrow> nat" where
  "parserMeasure p =
     4 * lexMeasure (lexer p) + 2 * (if Type (peek p) = TokenEOF then 0 else 1)
       + (if Type (current p) = TokenEOF then 0 else 1)"

lemma NextToken_lexMeasure_le: "lexMeasure (snd (NextToken l)) \<le> lexMeasure l"
proof (cases "Type (fst (NextToken l)) = TokenEOF")
  case False
  then show ?thesis using NextToken_lexMeasure [of l] by simp
next
  case True
  let ?l' = "snd (NextToken l)"
  have adv: "advanced l ?l'"
    using skipWhitespace_cases [of l] NextToken_after_skip [of l]
    by (auto intro: advanced_trans)
  show ?thesis
  proof (cases "readPosition l \<le> length (input l)")
    case True
    with adv show ?thesis by (auto simp: lexMeasure_def advanced_def)
  next
    case False
    with adv have "ch ?l' = CHR 0x00" by (simp add: advanced_def)
    with adv False show ?thesis by (simp add: lexMeasure_def advanced_def)
  qed
qed

lemma nextToken_measure_le: "parserMeasure (nextToken p) \<le> parserMeasure p"
proof (cases "Type (fst (NextToken (lexer p))) = TokenEOF")
  case True
  with NextToken_lexMeasure_le [of "lexer p"] show ?thesis
    by (simp add: parserMeasure_def nextToken_def case_prod_beta)
next
  case False
  with NextToken_lexMeasure [of "lexer p"] show ?thesis
    by (simp add: parserMeasure_def nextToken_def case_prod_beta)
qed

lemma nextToken_measure_less:
  "Type (current p) \<noteq> TokenEOF \<Longrightarrow> parserMeasure (nextToken p) < parserMeasure p"
proof (cases "Type (fst (NextToken (lexer p))) = TokenEOF")
  case True
  assume "Type (current p) \<noteq> TokenEOF"
  with True NextToken_lexMeasure_le [of "lexer p"] show ?thesis
    by (simp add: parserMeasure_def nextToken_def case_prod_beta)
next
  case False
  with NextToken_lexMeasure [of "lexer p"] show ?thesis
    by (simp add: parserMeasure_def nextToken_def case_prod_beta)
qed

text \<open>
  \<open>strconv.Atoi\<close> and \<open>strconv.ParseFloat\<close> on the literal of a number token (digits with an
  optional fraction): \<open>Atoi\<close> fails on a fraction and on a value that does not fit an
  \<open>int\<close>; \<open>ParseFloat\<close> fails when the value overflows a double. The result of
  \<open>ParseFloat\<close> is carried by the real number that the literal denotes (its rounding to
  the nearest double is left out).
\<close>

definition digitValue :: "char \<Rightarrow> nat" where
  "digitValue c = of_char c - 48"

definition decimalValue :: "string \<Rightarrow> nat" where
  "decimalValue s = foldl (\<lambda>a c. 10 * a + digitValue c) 0 s"

definition Atoi :: "string \<Rightarrow> int option" where
  "Atoi s =
     (if s \<noteq> [] \<and> list_all isDigit s \<and> decimalValue s < 2 ^ 63
      then Some (int (decimalValue s)) else None)"

definition ParseFloat :: "string \<Rightarrow> float64 option" where
  "ParseFloat s =
     (let whole = takeWhile isDigit s;
          frac = drop (Suc (length whole)) s;
          v = real (decimalValue whole) + real (decimalValue frac) / 10 ^ length frac
      in if s = [] \<or> \<not> list_all isDigit (whole @ frac) then None
         else if v \<ge> 2 ^ 1024 - 2 ^ 970 then None
         else Some (Fin v))"

type_synonym 'a parse_result = "string + ('a \<times> Parser)"

definition parseLiteral :: "Parser \<Rightarrow> Expression parse_result" where
  "parseLiteral p =
     (if currentTokenIs p TokenString
      then Inr (LiteralExpr (VString (Literal (current p))), nextToken p)
      else if currentTokenIs p TokenNumber then
        (case Atoi (Literal (current p)) of
           Some val \<Rightarrow> Inr (LiteralExpr (VInt val), nextToken p)
         | None \<Rightarrow>
             (case ParseFloat (Literal (current p)) of
                Some val \<Rightarrow> Inr (LiteralExpr (VFloat64 val), nextToken p)
              | None \<Rightarrow> Inl (''invalid number: '' @ Literal (current p))))
      else if currentTokenIs p TokenTrue then Inr (LiteralExpr (VBool True), nextToken p)
      else if currentTokenIs p TokenFalse then Inr (LiteralExpr (VBool False), nextToken p)
      else Inl ''unexpected token'')"

lemma parseLiteral_measure:
  "parseLiteral p = Inr (x, p') \<Longrightarrow> parserMeasure p' \<le> parserMeasure p"
  by (auto simp: parseLiteral_def nextToken_measure_le split: if_splits option.splits)

text \<open>The value of a literal expression, as \<open>parseProperties\<close> extracts it.\<close>

fun literalValue :: "Expression \<Rightarrow> PropertyValue" where
  "literalValue (LiteralExpr v) = v"
| "literalValue _ = VNil"

function parsePropertiesLoop :: "Properties \<Rightarrow> Parser \<Rightarrow> Properties parse_result" where
  "parsePropertiesLoop props p =
     (if \<not> currentTokenIs p TokenRightBrace then
        (if \<not> currentTokenIs p TokenIdentifier then Inl ''expected property name''
         else
           let key = Literal (current p); p1 = nextToken p
           in if \<not> currentTokenIs p1 TokenColon then Inl ''expected : after property name''
              else
                (case parseLiteral (nextToken p1) of
                   Inl err \<Rightarrow> Inl err
                 | Inr (valueExpr, p2) \<Rightarrow>
                     let props' = props(key \<mapsto> literalValue valueExpr)
                     in if currentTokenIs p2 TokenComma
                        then parsePropertiesLoop props' (nextToken p2)
                        else if \<not> currentTokenIs p2 TokenRightBrace
                        then Inl ''expected , or } in properties''
                        else parsePropertiesLoop props' p2))
      else Inr (props, p))"
  by pat_completeness auto
termination
proof (relation "measure (\<lambda>(props, p). parserMeasure p)", goal_cases)
  case 1
  show ?case by simp
next
  case (2 props p key p1 x valueExpr p2 props')
  then have "parserMeasure p1 < parserMeasure p"
    by (simp add: nextToken_measure_less currentTokenIs_def)
  moreover have "parserMeasure p2 \<le> parserMeasure (nextToken p1)"
    using 2 by (auto dest: parseLiteral_measure)
  ultimately show ?case
    using nextToken_measure_le [of p1] nextToken_measure_le [of p2] by simp
next
  case (3 props p key p1 x valueExpr p2 props')
  then have "parserMeasure p1 < parserMeasure p"
    by (simp add: nextToken_measure_less currentTokenIs_def)
  moreover have "parserMeasure p2 \<le> parserMeasure (nextToken p1)"
    using 3 by (auto dest: parseLiteral_measure)
  ultimately show ?case
    using nextToken_measure_le [of p1] by simp
qed

declare parsePropertiesLoop.simps [simp del]

lemma parsePropertiesLoop_measure:
  "parsePropertiesLoop props p = Inr (x, p') \<Longrightarrow> parserMeasure p' \<le> parserMeasure p"
proof (induction props p rule: parsePropertiesLoop.induct)
  case (1 props p)
  show ?case
  proof (cases "currentTokenIs p TokenRightBrace")
    case True
    with "1.prems" show ?thesis by (simp add: parsePropertiesLoop.simps [of props p])
  next
    case False
    let ?p1 = "nextToken p"
    from False "1.prems" have ident: "currentTokenIs p TokenIdentifier"
      and colon: "currentTokenIs ?p1 TokenColon"
      by (auto simp: parsePropertiesLoop.simps [of props p] Let_def split: if_splits)
    from False "1.prems" ident colon obtain valueExpr p2 where
      lit: "parseLiteral (nextToken ?p1) = Inr (valueExpr, p2)"
      by (auto simp: parsePropertiesLoop.simps [of props p] Let_def split: sum.splits)
    have m2: "parserMeasure p2 \<le> parserMeasure p"
      using parseLiteral_measure [OF lit] nextToken_measure_le [of ?p1] nextToken_measure_le [of p]
      by simp
    let ?props' = "props(Literal (current p) \<mapsto> literalValue valueExpr)"
    show ?thesis
    proof (cases "currentTokenIs p2 TokenComma")
      case True
      with False "1.prems" ident colon lit
      have "parsePropertiesLoop ?props' (nextToken p2) = Inr (x, p')"
        by (simp add: parsePropertiesLoop.simps [of props p] Let_def)
      from "1.IH"(1) [OF False _ refl refl _ lit refl refl True this] ident colon
      have "parserMeasure p' \<le> parserMeasure (nextToken p2)" by simp
      with m2 nextToken_measure_le [of p2] show ?thesis by simp
    next
      case notcomma: False
      with False "1.prems" ident colon lit
      have rb: "currentTokenIs p2 TokenRightBrace"
        and "parsePropertiesLoop ?props' p2 = Inr (x, p')"
        by (auto simp: parsePropertiesLoop.simps [of props p] Let_def split: if_splits)
      from "1.IH"(2) [OF False _ refl refl _ lit refl refl notcomma _ this(2)] ident colon rb
      have "parserMeasure p' \<le> parserMeasure p2" by simp
      with m2 show ?thesis by simp
    qed
  qed
qed

definition parseProperties :: "Parser \<Rightarrow> Properties parse_result" where
  "parseProperties p =
     (if \<not> currentTokenIs p TokenLeftBrace then Inl ''expected {''
      else
        (case parsePropertiesLoop Map.empty (nextToken p) of
           Inl err \<Rightarrow> Inl err
         | Inr (props, p1) \<Rightarrow>
             if \<not> currentTokenIs p1 TokenRightBrace then Inl ''expected }''
             else Inr (props, nextToken p1)))"

lemma parseProperties_measure:
  assumes "parseProperties p = Inr (x, p')"
  shows "parserMeasure p' \<le> parserMeasure p"
proof -
  from assms obtain p1 where loop: "parsePropertiesLoop Map.empty (nextToken p) = Inr (x, p1)"
    and p': "p' = nextToken p1"
    by (auto simp: parseProperties_def split: if_splits sum.splits)
  from parsePropertiesLoop_measure [OF loop] nextToken_measure_le [of p]
    nextToken_measure_le [of p1]
  show ?thesis by (simp add: p')
qed

lemma le_next: "parserMeasure q \<le> parserMeasure p \<Longrightarrow> parserMeasure (nextToken q) \<le> parserMeasure p"
  using nextToken_measure_le [of q] by simp

lemma less_next: "parserMeasure q < parserMeasure p \<Longrightarrow> parserMeasure (nextToken q) < parserMeasure p"
  using nextToken_measure_le [of q] by simp

definition parseNodePattern :: "Parser \<Rightarrow> NodePattern parse_result" where
  "parseNodePattern p0 =
     (if \<not> currentTokenIs p0 TokenLeftParen then Inl ''expected ( for node pattern''
      else
        let p1 = nextToken p0;
            node0 = \<lparr>npVariable = [], npLabel = [], npProperties = Map.empty\<rparr>;
            (node1, p2) =
              (if currentTokenIs p1 TokenIdentifier
               then (node0\<lparr>npVariable := Literal (current p1)\<rparr>, nextToken p1)
               else (node0, p1))
        in case (if currentTokenIs p2 TokenColon then
                   (let p3 = nextToken p2
                    in if \<not> currentTokenIs p3 TokenIdentifier then Inl ''expected label after :''
                       else Inr (node1\<lparr>npLabel := Literal (current p3)\<rparr>, nextToken p3))
                 else Inr (node1, p2)) of
             Inl err \<Rightarrow> Inl err
           | Inr (node2, p4) \<Rightarrow>
        (case (if currentTokenIs p4 TokenLeftBrace then
                 (case parseProperties p4 of
                    Inl err \<Rightarrow> Inl err
                  | Inr (props, p5) \<Rightarrow> Inr (node2\<lparr>npProperties := props\<rparr>, p5))
               else Inr (node2, p4)) of
           Inl err \<Rightarrow> Inl err
         | Inr (node3, p6) \<Rightarrow>
             if \<not> currentTokenIs p6 TokenRightParen then Inl ''expected ) to close node pattern''
             else Inr (node3, nextToken p6)))"

lemma parseNodePattern_measure:
  assumes "parseNodePattern p = Inr (x, p')"
  shows "parserMeasure p' \<le> parserMeasure p"
  using assms
  by (auto simp: parseNodePattern_def Let_def split: if_splits sum.splits prod.splits
      dest!: parseProperties_measure
      intro!: le_next intro: order_trans)

definition parseEdgePattern :: "Parser \<Rightarrow> EdgePattern parse_result" where
  "parseEdgePattern p0 =
     (let edge0 = \<lparr>epVariable = [], epType = [], epDirection = DirectionOut\<rparr>
      in case (if currentTokenIs p0 TokenLeftArrow
               then Inr (edge0\<lparr>epDirection := DirectionIn\<rparr>, nextToken p0)
               else if currentTokenIs p0 TokenDash then Inr (edge0, nextToken p0)
               else Inl ''expected - or <- to start edge pattern'') of
           Inl err \<Rightarrow> Inl err
         | Inr (edge1, p1) \<Rightarrow>
             if \<not> currentTokenIs p1 TokenLeftBracket then Inl ''expected [ in edge pattern''
             else
               let p2 = nextToken p1;
                   (edge2, p3) =
                     (if currentTokenIs p2 TokenIdentifier
                      then (edge1\<lparr>epVariable := Literal (current p2)\<rparr>, nextToken p2)
                      else (edge1, p2))
               in case (if currentTokenIs p3 TokenColon then
                          (let p4 = nextToken p3
                           in if \<not> currentTokenIs p4 TokenIdentifier
                              then Inl ''expected edge type after :''
                              else Inr (edge2\<lparr>epType := Literal (current p4)\<rparr>, nextToken p4))
                        else Inr (edge2, p3)) of
                    Inl err \<Rightarrow> Inl err
                  | Inr (edge3, p5) \<Rightarrow>
                      if \<not> currentTokenIs p5 TokenRightBracket
                      then Inl ''expected ] to close edge pattern''
                      else
                        let p6 = nextToken p5
                        in if currentTokenIs p6 TokenArrow then
                             Inr (edge3\<lparr>epDirection :=
                                     (if epDirection edge3 = DirectionIn then DirectionBoth
                                      else DirectionOut)\<rparr>,
                                  nextToken p6)
                           else if currentTokenIs p6 TokenDash then
                             Inr ((if epDirection edge3 = DirectionOut
                                   then edge3\<lparr>epDirection := DirectionBoth\<rparr> else edge3),
                                  nextToken p6)
                           else if epDirection edge3 = DirectionOut then
                             Inr (edge3\<lparr>epDirection := DirectionBoth\<rparr>, p6)
                           else Inr (edge3, p6))"

lemma parseEdgePattern_measure:
  assumes "parseEdgePattern p = Inr (x, p')"
  shows "parserMeasure p' < parserMeasure p"
proof -
  from assms have start: "Type (current p) \<noteq> TokenEOF"
    by (auto simp: parseEdgePattern_def Let_def currentTokenIs_def split: if_splits)
  then have first: "parserMeasure (nextToken p) < parserMeasure p"
    by (rule nextToken_measure_less)
  from assms show ?thesis
    by (auto simp: parseEdgePattern_def Let_def split: if_splits sum.splits prod.splits
        intro!: less_next first)
qed

function parsePatternLoop :: "Pattern \<Rightarrow> Parser \<Rightarrow> Pattern parse_result" where
  "parsePatternLoop pattern p =
     (if currentTokenIs p TokenDash \<or> currentTokenIs p TokenLeftArrow then
        (case parseEdgePattern p of
           Inl err \<Rightarrow> Inl err
         | Inr (edge, p1) \<Rightarrow>
             (case parseNodePattern p1 of
                Inl err \<Rightarrow> Inl err
              | Inr (node, p2) \<Rightarrow>
                  parsePatternLoop
                    (pattern\<lparr>patEdges := patEdges pattern @ [edge],
                             patNodes := patNodes pattern @ [node]\<rparr>) p2))
      else Inr (pattern, p))"
  by pat_completeness auto
termination
proof (relation "measure (\<lambda>(pattern, p). parserMeasure p)", goal_cases)
  case 1
  show ?case by simp
next
  case (2 pattern p x edge p1 y node p2)
  then have "parserMeasure p1 < parserMeasure p" "parserMeasure p2 \<le> parserMeasure p1"
    by (auto dest: parseEdgePattern_measure parseNodePattern_measure)
  then show ?case by simp
qed

declare parsePatternLoop.simps [simp del]

lemma parsePatternLoop_measure:
  "parsePatternLoop pattern p = Inr (x, p') \<Longrightarrow> parserMeasure p' \<le> parserMeasure p"
proof (induction pattern p rule: parsePatternLoop.induct)
  case (1 pattern p)
  show ?case
  proof (cases "currentTokenIs p TokenDash \<or> currentTokenIs p TokenLeftArrow")
    case False
    with "1.prems" show ?thesis by (simp add: parsePatternLoop.simps [of pattern p])
  next
    case True
    with "1.prems" obtain edge p1 node p2 where
      e: "parseEdgePattern p = Inr (edge, p1)" and n: "parseNodePattern p1 = Inr (node, p2)"
      and rest: "parsePatternLoop (pattern\<lparr>patEdges := patEdges pattern @ [edge],
                             patNodes := patNodes pattern @ [node]\<rparr>) p2 = Inr (x, p')"
      by (auto simp: parsePatternLoop.simps [of pattern p] split: sum.splits)
    from "1.IH" [OF True e refl n refl rest]
      parseEdgePattern_measure [OF e] parseNodePattern_measure [OF n]
    show ?thesis by simp
  qed
qed

definition parsePattern :: "Parser \<Rightarrow> Pattern parse_result" where
  "parsePattern p =
     (case parseNodePattern p of
        Inl err \<Rightarrow> Inl err
      | Inr (node, p1) \<Rightarrow> parsePatternLoop \<lparr>patNodes = [node], patEdges = []\<rparr> p1)"

definition parseMatchClause :: "Parser \<Rightarrow> (Pattern list) parse_result" where
  "parseMatchClause p =
     (if \<not> currentTokenIs p TokenMatch then Inl ''expected MATCH''
      else
        (case parsePattern (nextToken p) of
           Inl err \<Rightarrow> Inl err
         | Inr (pattern, p1) \<Rightarrow> Inr ([pattern], p1)))"

definition parsePrimaryExpression :: "Parser \<Rightarrow> Expression parse_result" where
  "parsePrimaryExpression p =
     (if currentTokenIs p TokenIdentifier \<and> peekTokenIs p TokenDot then
        (let variable = Literal (current p);
             p2 = nextToken (nextToken p)
         in if \<not> currentTokenIs p2 TokenIdentifier then Inl ''expected property name after .''
            else Inr (PropertyAccess variable (Literal (current p2)), nextToken p2))
      else if currentTokenIs p TokenIdentifier
      then Inr (Identifier (Literal (current p)), nextToken p)
      else parseLiteral p)"

lemma parsePrimaryExpression_measure:
  "parsePrimaryExpression p = Inr (x, p') \<Longrightarrow> parserMeasure p' \<le> parserMeasure p"
  by (auto simp: parsePrimaryExpression_def Let_def split: if_splits
      dest!: parseLiteral_measure intro!: le_next)

definition isComparisonToken :: "Parser \<Rightarrow> bool" where
  "isComparisonToken p \<longleftrightarrow>
     currentTokenIs p TokenEqual \<or> currentTokenIs p TokenNotEqual
     \<or> currentTokenIs p TokenLess \<or> currentTokenIs p TokenLessEqual
     \<or> currentTokenIs p TokenGreater \<or> currentTokenIs p TokenGreaterEqual"

definition parseComparisonExpression :: "Parser \<Rightarrow> Expression parse_result" where
  "parseComparisonExpression p =
     (case parsePrimaryExpression p of
        Inl err \<Rightarrow> Inl err
      | Inr (left, p1) \<Rightarrow>
          if isComparisonToken p1 then
            (let op = Literal (current p1)
             in case parsePrimaryExpression (nextToken p1) of
                  Inl err \<Rightarrow> Inl err
                | Inr (right, p2) \<Rightarrow> Inr (BinaryExpr left op right, p2))
          else Inr (left, p1))"

lemma parseComparisonExpression_measure:
  assumes "parseComparisonExpression p = Inr (x, p')"
  shows "parserMeasure p' \<le> parserMeasure p"
proof -
  from assms obtain left p1 where l: "parsePrimaryExpression p = Inr (left, p1)"
    by (auto simp: parseComparisonExpression_def split: sum.splits)
  note m1 = parsePrimaryExpression_measure [OF l]
  show ?thesis
  proof (cases "isComparisonToken p1")
    case False
    with assms l m1 show ?thesis by (simp add: parseComparisonExpression_def)
  next
    case True
    with assms l obtain right where "parsePrimaryExpression (nextToken p1) = Inr (right, p')"
      by (auto simp: parseComparisonExpression_def Let_def split: sum.splits)
    from parsePrimaryExpression_measure [OF this] m1 nextToken_measure_le [of p1]
    show ?thesis by simp
  qed
qed

function parseAndLoop :: "Expression \<Rightarrow> Parser \<Rightarrow> Expression parse_result" where
  "parseAndLoop left p =
     (if currentTokenIs p TokenAnd then
        (let op = Literal (current p)
         in case parseComparisonExpression (nextToken p) of
              Inl err \<Rightarrow> Inl err
            | Inr (right, p1) \<Rightarrow> parseAndLoop (BinaryExpr left op right) p1)
      else Inr (left, p))"
  by pat_completeness auto
termination
proof (relation "measure (\<lambda>(left, p). parserMeasure p)", goal_cases)
  case 1
  show ?case by simp
next
  case (2 left p op x right p1)
  then have "parserMeasure (nextToken p) < parserMeasure p"
    "parserMeasure p1 \<le> parserMeasure (nextToken p)"
    by (auto simp: currentTokenIs_def nextToken_measure_less dest: parseComparisonExpression_measure)
  then show ?case by simp
qed

declare parseAndLoop.simps [simp del]

lemma parseAndLoop_measure:
  "parseAndLoop left p = Inr (x, p') \<Longrightarrow> parserMeasure p' \<le> parserMeasure p"
proof (induction left p rule: parseAndLoop.induct)
  case (1 left p)
  show ?case
  proof (cases "currentTokenIs p TokenAnd")
    case False
    with "1.prems" show ?thesis by (simp add: parseAndLoop.simps [of left p])
  next
    case True
    with "1.prems" obtain right p1 where
      c: "parseComparisonExpression (nextToken p) = Inr (right, p1)"
      and rest: "parseAndLoop (BinaryExpr left (Literal (current p)) right) p1 = Inr (x, p')"
      by (auto simp: parseAndLoop.simps [of left p] Let_def split: sum.splits)
    from "1.IH" [OF True refl c refl rest] parseComparisonExpression_measure [OF c]
      nextToken_measure_le [of p]
    show ?thesis by simp
  qed
qed

definition parseAndExpression :: "Parser \<Rightarrow> Expression parse_result" where
  "parseAndExpression p =
     (case parseComparisonExpression p of
        Inl err \<Rightarrow> Inl err
      | Inr (left, p1) \<Rightarrow> parseAndLoop left p1)"

lemma parseAndExpression_measure:
  "parseAndExpression p = Inr (x, p') \<Longrightarrow> parserMeasure p' \<le> parserMeasure p"
  by (auto simp: parseAndExpression_def split: sum.splits
      dest!: parseComparisonExpression_measure parseAndLoop_measure)

function parseOrLoop :: "Expression \<Rightarrow> Parser \<Rightarrow> Expression parse_result" where
  "parseOrLoop left p =
     (if currentTokenIs p TokenOr then
        (let op = Literal (current p)
         in case parseAndExpression (nextToken p) of
              Inl err \<Rightarrow> Inl err
            | Inr (right, p1) \<Rightarrow> parseOrLoop (BinaryExpr left op right) p1)
      else Inr (left, p))"
  by pat_completeness auto
termination
proof (relation "measure (\<lambda>(left, p). parserMeasure p)", goal_cases)
  case 1
  show ?case by simp
next
  case (2 left p op x right p1)
  then have "parserMeasure (nextToken p) < parserMeasure p"
    "parserMeasure p1 \<le> parserMeasure (nextToken p)"
    by (auto simp: currentTokenIs_def nextToken_measure_less dest: parseAndExpression_measure)
  then show ?case by simp
qed

declare parseOrLoop.simps [simp del]

definition parseOrExpression :: "Parser \<Rightarrow> Expression parse_result" where
  "parseOrExpression p =
     (case parseAndExpression p of
        Inl err \<Rightarrow> Inl err
      | Inr (left, p1) \<Rightarrow> parseOrLoop left p1)"

definition parseExpression :: "Parser \<Rightarrow> Expression parse_result" where
  "parseExpression p = parseOrExpression p"

definition parseWhereClause :: "Parser \<Rightarrow> Expression parse_result" where
  "parseWhereClause p =
     (if \<not> currentTokenIs p TokenWhere then Inl ''expected WHERE''
      else parseExpression (nextToken p))"

definition parseReturnExpression :: "Parser \<Rightarrow> Expression parse_result" where
  "parseReturnExpression p = parsePrimaryExpression p"

function parseReturnItems :: "ReturnItem list \<Rightarrow> Parser \<Rightarrow> (ReturnItem list) parse_result" where
  "parseReturnItems items p =
     (case parseReturnExpression p of
        Inl err \<Rightarrow> Inl err
      | Inr (expr, p1) \<Rightarrow>
          let items' = items @ [\<lparr>itemExpr = expr, itemAlias = []\<rparr>]
          in if \<not> currentTokenIs p1 TokenComma then Inr (items', p1)
             else parseReturnItems items' (nextToken p1))"
  by pat_completeness auto
termination
proof (relation "measure (\<lambda>(items, p). parserMeasure p)", goal_cases)
  case 1
  show ?case by simp
next
  case (2 items p x expr p1 items')
  then have "parserMeasure p1 \<le> parserMeasure p" "parserMeasure (nextToken p1) < parserMeasure p1"
    by (auto simp: currentTokenIs_def nextToken_measure_less parseReturnExpression_def
        dest: parsePrimaryExpression_measure)
  then show ?case by simp
qed

declare parseReturnItems.simps [simp del]

definition parseReturnClause :: "Parser \<Rightarrow> ReturnClause parse_result" where
  "parseReturnClause p =
     (if \<not> currentTokenIs p TokenReturn then Inl ''expected RETURN''
      else
        (case parseReturnItems [] (nextToken p) of
           Inl err \<Rightarrow> Inl err
         | Inr (items, p1) \<Rightarrow> Inr (\<lparr>Items = items, Distinct = False\<rparr>, p1)))"

definition parseLimitClause :: "Parser \<Rightarrow> int parse_result" where
  "parseLimitClause p =
     (if \<not> currentTokenIs p TokenLimit then Inl ''expected LIMIT''
      else
        let p1 = nextToken p
        in if \<not> currentTokenIs p1 TokenNumber then Inl ''expected number after LIMIT''
           else
             (case Atoi (Literal (current p1)) of
                None \<Rightarrow> Inl (''invalid LIMIT value: '' @ Literal (current p1))
              | Some limit \<Rightarrow> Inr (limit, nextToken p1)))"

definition NewQuery :: Query where
  "NewQuery = \<lparr>Match = None, Where = None, Return = None, Limit = None\<rparr>"

definition Parse :: "Parser \<Rightarrow> string + Query" where
  "Parse p0 =
     (case (if currentTokenIs p0 TokenMatch then
              (case parseMatchClause p0 of
                 Inl err \<Rightarrow> Inl err
               | Inr (match, p) \<Rightarrow> Inr (NewQuery\<lparr>Match := Some match\<rparr>, p))
            else Inr (NewQuery, p0)) of
        Inl err \<Rightarrow> Inl err
      | Inr (q1, p1) \<Rightarrow>
     (case (if currentTokenIs p1 TokenWhere then
              (case parseWhereClause p1 of
                 Inl err \<Rightarrow> Inl err
               | Inr (expr, p) \<Rightarrow> Inr (q1\<lparr>Where := Some expr\<rparr>, p))
            else Inr (q1, p1)) of
        Inl err \<Rightarrow> Inl err
      | Inr (q2, p2) \<Rightarrow>
     (case (if currentTokenIs p2 TokenReturn then
              (case parseReturnClause p2 of
                 Inl err \<Rightarrow> Inl err
               | Inr (ret, p) \<Rightarrow> Inr (q2\<lparr>Return := Some ret\<rparr>, p))
            else Inr (q2, p2)) of
        Inl err \<Rightarrow> Inl err
      | Inr (q3, p3) \<Rightarrow>
     (case (if currentTokenIs p3 TokenLimit then
              (case parseLimitClause p3 of
                 Inl err \<Rightarrow> Inl err
               | Inr (limit, p) \<Rightarrow> Inr (q3\<lparr>Limit := Some limit\<rparr>, p))
            else Inr (q3, p3)) of
        Inl err \<Rightarrow> Inl err
      | Inr (q4, p4) \<Rightarrow>
          if length (errors p4) > 0 then Inl ''parse errors'' else Inr q4))))"

text \<open>The types of the next \<open>n\<close> tokens that \<open>nextToken\<close> makes current, and the parser after
  \<open>n\<close> calls of \<open>nextToken\<close>.\<close>

fun typesAhead :: "nat \<Rightarrow> Parser \<Rightarrow> TokenType list" where
  "typesAhead 0 p = []"
| "typesAhead (Suc n) p = Type (current p) # typesAhead n (nextToken p)"

fun advance :: "nat \<Rightarrow> Parser \<Rightarrow> Parser" where
  "advance 0 p = p"
| "advance (Suc n) p = advance n (nextToken p)"


section \<open>Example states\<close>

text \<open>A persistent graph opened on two empty directories, and a log of three entries.\<close>

definition emptyPersistentGraph :: PersistentGraph where
  "emptyPersistentGraph =
     \<lparr>graph = NewGraph, wal = NewWAL [], snapshotManager = None, walEnabled = True\<rparr>"

definition entry1 :: LogEntry where
  "entry1 = \<lparr>Index = 1, OpType = OpDeleteNode, Data = DeleteNodeData 7\<rparr>"

definition entry2 :: LogEntry where
  "entry2 = \<lparr>Index = 2, OpType = OpDeleteNode, Data = DeleteNodeData 8\<rparr>"

definition entry3 :: LogEntry where
  "entry3 = \<lparr>Index = 3, OpType = OpDeleteEdge, Data = DeleteEdgeData 9\<rparr>"


text \<open>Three persons, \<open>1 -KNOWS-> 2 -KNOWS-> 3\<close>.\<close>

definition exampleGraph :: Graph where
  "exampleGraph =
     \<lparr>nodes = [1 \<mapsto> \<lparr>ID = 1, Label = ''Person'', Properties = [''name'' \<mapsto> VString ''Alice''],
                        OutEdges = [1], InEdges = []\<rparr>,
               2 \<mapsto> \<lparr>ID = 2, Label = ''Person'', Properties = [''name'' \<mapsto> VString ''Bob''],
                        OutEdges = [2], InEdges = [1]\<rparr>,
               3 \<mapsto> \<lparr>ID = 3, Label = ''Person'', Properties = [''name'' \<mapsto> VString ''Carol''],
                        OutEdges = [], InEdges = [2]\<rparr>],
      edges = [1 \<mapsto> \<lparr>EID = 1, Source = 1, Target = 2, ELabel = ''KNOWS'', EProperties = Map.empty\<rparr>,
               2 \<mapsto> \<lparr>EID = 2, Source = 2, Target = 3, ELabel = ''KNOWS'', EProperties = Map.empty\<rparr>],
      nextNodeID = 4, nextEdgeID = 3\<rparr>"


section \<open>Properties of the in-memory graph\<close>

lemma updateNode_edges [simp]: "edges (updateNode i f g) = edges g"
  by (simp add: updateNode_def split: option.splits)

lemma updateNode_counters [simp]:
  "nextNodeID (updateNode i f g) = nextNodeID g"
  "nextEdgeID (updateNode i f g) = nextEdgeID g"
  by (simp_all add: updateNode_def split: option.splits)

lemma updateNode_nodes:
  "nodes (updateNode i f g) m =
     (if m = i then map_option f (nodes g i) else nodes g m)"
  by (simp add: updateNode_def split: option.splits)

lemma AddNode_result:
  "AddNode label props g =
     (SetProperties props (NewNode (nextNodeID g) label),
      g\<lparr>nodes := (nodes g)(nextNodeID g \<mapsto> SetProperties props (NewNode (nextNodeID g) label)),
        nextNodeID := nextNodeID g + 1\<rparr>)"
  by (simp add: AddNode_def Let_def)

text \<open>\<^bold>\<open>C10.\<close> Self-loops are supported: for an existing node \<open>n\<close>, \<open>AddEdge n n label props\<close>
  succeeds; the new edge is stored with source and target \<open>n\<close>, and its ID is in both
  \<open>OutEdges\<close> and \<open>InEdges\<close> of \<open>n\<close>.\<close>

theorem AddEdge_self_loop:
  assumes "nodes g n = Some node"
  shows "\<exists>edge g' node'.
           AddEdge n n label props g = Inr (edge, g')
         \<and> edges g' (EID edge) = Some edge
         \<and> Source edge = n \<and> Target edge = n
         \<and> nodes g' n = Some node'
         \<and> EID edge \<in> set (OutEdges node')
         \<and> EID edge \<in> set (InEdges node')"
  using assms
  by (simp add: AddEdge_def GetNode_def Let_def updateNode_nodes NewEdge_def
      EdgeSetProperties_def AddOutEdge_def AddInEdge_def)

theorem AddEdge_self_loop_witness:
  "\<exists>edge g' node'.
     AddEdge 1 1 ''LIKES'' Map.empty (snd (AddNode ''Person'' Map.empty NewGraph)) = Inr (edge, g')
   \<and> edges g' (EID edge) = Some edge
   \<and> Source edge = 1 \<and> Target edge = 1
   \<and> nodes g' 1 = Some node'
   \<and> EID edge \<in> set (OutEdges node')
   \<and> EID edge \<in> set (InEdges node')"
  by (rule AddEdge_self_loop [of _ 1 "SetProperties Map.empty (NewNode 1 ''Person'')"])
     (simp add: AddNode_def NewGraph_def Let_def)


subsection \<open>The invariants hold in every state built by the in-memory operations\<close>

lemma wellformedI:
  assumes "\<And>i n. nodes g i = Some n \<Longrightarrow> node_ok g i n"
    and "\<And>e ed. edges g e = Some ed \<Longrightarrow> edge_ok g e ed"
  shows "wellformed g"
  using assms by (simp add: wellformed_def)

lemma wellformed_node: "wellformed g \<Longrightarrow> nodes g i = Some n \<Longrightarrow> node_ok g i n"
  by (simp add: wellformed_def)

lemma wellformed_edge: "wellformed g \<Longrightarrow> edges g e = Some ed \<Longrightarrow> edge_ok g e ed"
  by (simp add: wellformed_def)

lemma DeleteEdge_edges:
  "edges (ignoreError (DeleteEdge e g) g) = (edges g)(e := None)"
  by (auto simp: DeleteEdge_def GetEdge_def ignoreError_def Let_def split: option.splits)

lemma nodePayload_remove [simp]:
  "nodePayload (removeOutEdge e n) = nodePayload n"
  "nodePayload (removeInEdge e n) = nodePayload n"
  by (simp_all add: nodePayload_def removeOutEdge_def removeInEdge_def)

lemma DeleteEdge_payload:
  "map_option nodePayload (nodes (ignoreError (DeleteEdge e g) g) m)
     = map_option nodePayload (nodes g m)"
  by (auto simp: DeleteEdge_def GetEdge_def ignoreError_def Let_def updateNode_nodes
      option.map_comp o_def split: option.splits)

lemma DeleteEdges_edges:
  "edges (DeleteEdges ids g) = (\<lambda>e. if e \<in> set ids then None else edges g e)"
proof (induction ids arbitrary: g)
  case Nil
  show ?case by (simp add: DeleteEdges_def)
next
  case (Cons a ids)
  have "DeleteEdges (a # ids) g = DeleteEdges ids (ignoreError (DeleteEdge a g) g)"
    by (simp add: DeleteEdges_def)
  then show ?case
    using Cons.IH [of "ignoreError (DeleteEdge a g) g"]
    by (auto simp: DeleteEdge_edges)
qed

lemma DeleteEdges_payload:
  "map_option nodePayload (nodes (DeleteEdges ids g) m) = map_option nodePayload (nodes g m)"
proof (induction ids arbitrary: g)
  case Nil
  show ?case by (simp add: DeleteEdges_def)
next
  case (Cons a ids)
  have "DeleteEdges (a # ids) g = DeleteEdges ids (ignoreError (DeleteEdge a g) g)"
    by (simp add: DeleteEdges_def)
  then show ?case
    using Cons.IH [of "ignoreError (DeleteEdge a g) g"]
    by (simp add: DeleteEdge_payload)
qed

lemma wellformed_NewGraph: "wellformed NewGraph"
  by (simp add: wellformed_def NewGraph_def)

lemma unat_succ: "(y::64 word) + 1 \<noteq> 0 \<Longrightarrow> unat (y + 1) = Suc (unat y)"
  using unatSuc [of y] by (simp add: add.commute)

lemma word_less_succ: "(x::64 word) < y \<Longrightarrow> y + 1 \<noteq> 0 \<Longrightarrow> x < y + 1"
  by (simp add: word_less_nat_alt unat_succ)

lemma word_less_self_succ: "(y::64 word) + 1 \<noteq> 0 \<Longrightarrow> y < y + 1"
  by (simp add: word_less_nat_alt unat_succ)

lemma wellformed_AddNode:
  assumes wf: "wellformed g" and nowrap: "nextNodeID g + 1 \<noteq> 0"
  shows "wellformed (snd (AddNode label props g))"
proof (rule wellformedI)
  fix i n assume "nodes (snd (AddNode label props g)) i = Some n"
  then consider "i = nextNodeID g" "n = SetProperties props (NewNode (nextNodeID g) label)"
    | "i \<noteq> nextNodeID g" "nodes g i = Some n"
    by (auto simp: AddNode_result split: if_splits)
  then show "node_ok (snd (AddNode label props g)) i n"
  proof cases
    case 1
    then show ?thesis using nowrap
      by (simp add: node_ok_def AddNode_result SetProperties_def NewNode_def word_less_self_succ)
  next
    case 2
    with wellformed_node [OF wf] have "node_ok g i n" by blast
    then show ?thesis using nowrap
      by (simp add: node_ok_def AddNode_result word_less_succ)
  qed
next
  fix e ed assume "edges (snd (AddNode label props g)) e = Some ed"
  then have "edges g e = Some ed" by (simp add: AddNode_result)
  then have ok: "edge_ok g e ed" by (rule wellformed_edge [OF wf])
  then obtain s t where st: "nodes g (Source ed) = Some s" "nodes g (Target ed) = Some t"
    by (auto simp: edge_ok_def)
  from wellformed_node [OF wf st(1)] wellformed_node [OF wf st(2)]
  have "Source ed \<noteq> nextNodeID g" "Target ed \<noteq> nextNodeID g"
    by (auto simp: node_ok_def)
  with ok show "edge_ok (snd (AddNode label props g)) e ed"
    by (simp add: edge_ok_def AddNode_result)
qed


lemma DeleteEdge_result:
  assumes "edges g e = Some ed"
  shows "DeleteEdge e g =
           Inr ((updateNode (Target ed) (removeInEdge e) (updateNode (Source ed) (removeOutEdge e) g))
                 \<lparr>edges := (edges g)(e := None)\<rparr>)"
  using assms by (simp add: DeleteEdge_def GetEdge_def Let_def)

lemma DeleteEdge_nodes:
  assumes "edges g e = Some ed" and "DeleteEdge e g = Inr g'"
  shows "nodes g' m =
           map_option (\<lambda>n. n\<lparr>OutEdges := (if m = Source ed then remove1 e (OutEdges n) else OutEdges n),
                               InEdges := (if m = Target ed then remove1 e (InEdges n) else InEdges n)\<rparr>)
             (nodes g m)"
  using assms
  by (cases "nodes g m")
     (auto simp: DeleteEdge_result updateNode_nodes removeOutEdge_def removeInEdge_def)

lemma wellformed_DeleteEdge:
  assumes wf: "wellformed g" and del: "DeleteEdge e g = Inr g'"
  shows "wellformed g'"
proof -
  from del obtain ed where ed: "edges g e = Some ed"
    by (auto simp: DeleteEdge_def GetEdge_def split: option.splits)
  have edges': "edges g' = (edges g)(e := None)"
    using del ed by (auto simp: DeleteEdge_result)
  have counters: "nextNodeID g' = nextNodeID g" "nextEdgeID g' = nextEdgeID g"
    using del ed by (auto simp: DeleteEdge_result)
  note nodes' = DeleteEdge_nodes [OF ed del]
  show ?thesis
  proof (rule wellformedI)
    fix m n' assume "nodes g' m = Some n'"
    then obtain n where n: "nodes g m = Some n"
      and n': "n' = n\<lparr>OutEdges := (if m = Source ed then remove1 e (OutEdges n) else OutEdges n),
                       InEdges := (if m = Target ed then remove1 e (InEdges n) else InEdges n)\<rparr>"
      by (auto simp: nodes')
    have ok: "node_ok g m n" by (rule wellformed_node [OF wf n])
    have out: "\<exists>ed'. edges g' x = Some ed' \<and> Source ed' = m" if "x \<in> set (OutEdges n')" for x
    proof -
      from that n' have x: "x \<in> set (OutEdges n)" and ne: "m = Source ed \<longrightarrow> x \<noteq> e"
        using ok by (auto simp: node_ok_def split: if_splits)
      from ok x obtain ed' where ed': "edges g x = Some ed'" "Source ed' = m"
        by (auto simp: node_ok_def)
      with ne ed have "x \<noteq> e" by auto
      with ed' show ?thesis by (simp add: edges')
    qed
    have inn: "\<exists>ed'. edges g' x = Some ed' \<and> Target ed' = m" if "x \<in> set (InEdges n')" for x
    proof -
      from that n' have x: "x \<in> set (InEdges n)" and ne: "m = Target ed \<longrightarrow> x \<noteq> e"
        using ok by (auto simp: node_ok_def split: if_splits)
      from ok x obtain ed' where ed': "edges g x = Some ed'" "Target ed' = m"
        by (auto simp: node_ok_def)
      with ne ed have "x \<noteq> e" by auto
      with ed' show ?thesis by (simp add: edges')
    qed
    from ok n' have "ID n' = m \<and> m < nextNodeID g' \<and> distinct (OutEdges n') \<and> distinct (InEdges n')"
      by (simp add: node_ok_def counters)
    with out inn show "node_ok g' m n'"
      by (simp add: node_ok_def)
  next
    fix x ed' assume "edges g' x = Some ed'"
    then have x: "x \<noteq> e" "edges g x = Some ed'"
      by (auto simp: edges' split: if_splits)
    from wellformed_edge [OF wf x(2)] obtain s t where
      st: "EID ed' = x" "x < nextEdgeID g"
          "nodes g (Source ed') = Some s" "x \<in> set (OutEdges s)"
          "nodes g (Target ed') = Some t" "x \<in> set (InEdges t)"
      by (auto simp: edge_ok_def)
    with x(1) show "edge_ok g' x ed'"
      by (auto simp: edge_ok_def counters nodes')
  qed
qed

lemma wellformed_DeleteEdges:
  "wellformed g \<Longrightarrow> wellformed (DeleteEdges ids g)"
proof (induction ids arbitrary: g)
  case Nil
  then show ?case by (simp add: DeleteEdges_def)
next
  case (Cons a ids)
  have step: "DeleteEdges (a # ids) g = DeleteEdges ids (ignoreError (DeleteEdge a g) g)"
    by (simp add: DeleteEdges_def)
  have "wellformed (ignoreError (DeleteEdge a g) g)"
    using Cons.prems wellformed_DeleteEdge [of g a]
    by (cases "DeleteEdge a g") (simp_all add: ignoreError_def)
  then show ?case
    unfolding step by (rule Cons.IH)
qed

lemma DeleteEdges_counters:
  "nextNodeID (DeleteEdges ids g) = nextNodeID g \<and> nextEdgeID (DeleteEdges ids g) = nextEdgeID g"
proof (induction ids arbitrary: g)
  case Nil
  show ?case by (simp add: DeleteEdges_def)
next
  case (Cons a ids)
  have step: "DeleteEdges (a # ids) g = DeleteEdges ids (ignoreError (DeleteEdge a g) g)"
    by (simp add: DeleteEdges_def)
  have "nextNodeID (ignoreError (DeleteEdge a g) g) = nextNodeID g
      \<and> nextEdgeID (ignoreError (DeleteEdge a g) g) = nextEdgeID g"
    by (auto simp: ignoreError_def DeleteEdge_def GetEdge_def Let_def split: option.splits)
  with Cons.IH [of "ignoreError (DeleteEdge a g) g"] show ?case
    unfolding step by simp
qed

lemma wellformed_DeleteNode:
  assumes wf: "wellformed g" and del: "DeleteNode n g = Inr g'"
  shows "wellformed g'"
proof -
  from del obtain node where node: "nodes g n = Some node"
    by (auto simp: DeleteNode_def GetNode_def split: option.splits)
  let ?g2 = "DeleteEdges (InEdges node) (DeleteEdges (OutEdges node) g)"
  have g': "g' = ?g2\<lparr>nodes := (nodes ?g2)(n := None)\<rparr>"
    using del node by (simp add: DeleteNode_def GetNode_def Let_def)
  have wf2: "wellformed ?g2"
    by (intro wellformed_DeleteEdges wf)
  have edges2: "edges ?g2 e = (if e \<in> set (OutEdges node) \<union> set (InEdges node) then None else edges g e)" for e
    by (simp add: DeleteEdges_edges)
  have not_incident: "Source ed \<noteq> n \<and> Target ed \<noteq> n" if "edges ?g2 e = Some ed" for e ed
  proof -
    from that have e: "e \<notin> set (OutEdges node) \<union> set (InEdges node)" "edges g e = Some ed"
      by (auto simp: edges2 split: if_splits)
    from wellformed_edge [OF wf e(2)] obtain s t where
      "nodes g (Source ed) = Some s" "e \<in> set (OutEdges s)"
      "nodes g (Target ed) = Some t" "e \<in> set (InEdges t)"
      by (auto simp: edge_ok_def)
    with e(1) node show ?thesis by auto
  qed
  show ?thesis
  proof (rule wellformedI)
    fix m nd assume "nodes g' m = Some nd"
    then have "nodes ?g2 m = Some nd"
      by (auto simp: g' split: if_splits)
    from wellformed_node [OF wf2 this] show "node_ok g' m nd"
      by (simp add: node_ok_def g')
  next
    fix e ed assume "edges g' e = Some ed"
    then have e: "edges ?g2 e = Some ed" by (simp add: g')
    from wellformed_edge [OF wf2 e] not_incident [OF e] show "edge_ok g' e ed"
      by (simp add: edge_ok_def g')
  qed
qed


lemma AddEdge_result:
  assumes "nodes g source = Some s" and "nodes g target = Some t"
  shows "AddEdge source target label props g =
     Inr (EdgeSetProperties props (NewEdge (nextEdgeID g) source target label),
          updateNode target (AddInEdge (nextEdgeID g))
            (updateNode source (AddOutEdge (nextEdgeID g))
               (g\<lparr>edges := (edges g)(nextEdgeID g \<mapsto>
                        EdgeSetProperties props (NewEdge (nextEdgeID g) source target label)),
                   nextEdgeID := nextEdgeID g + 1\<rparr>)))"
  using assms by (simp add: AddEdge_def GetNode_def Let_def)

lemma AddEdge_nodes:
  assumes "AddEdge source target label props g = Inr (edge, g')"
  shows "nodes g' m =
           map_option (\<lambda>n. n\<lparr>OutEdges := (if m = source then OutEdges n @ [nextEdgeID g] else OutEdges n),
                               InEdges := (if m = target then InEdges n @ [nextEdgeID g] else InEdges n)\<rparr>)
             (nodes g m)"
  using assms
  by (cases "nodes g m")
     (auto simp: AddEdge_def GetNode_def Let_def updateNode_nodes AddOutEdge_def AddInEdge_def
      split: option.splits)

lemma wellformed_AddEdge:
  assumes wf: "wellformed g" and nowrap: "nextEdgeID g + 1 \<noteq> 0"
    and add: "AddEdge source target label props g = Inr (edge, g')"
  shows "wellformed g'"
proof -
  let ?e = "nextEdgeID g"
  from add obtain s t where st: "nodes g source = Some s" "nodes g target = Some t"
    by (auto simp: AddEdge_def GetNode_def split: option.splits)
  have edge: "edge = EdgeSetProperties props (NewEdge ?e source target label)"
    and edges': "edges g' = (edges g)(?e \<mapsto> edge)"
    and counters: "nextNodeID g' = nextNodeID g" "nextEdgeID g' = ?e + 1"
    using add by (auto simp: AddEdge_result [OF st])
  note nodes' = AddEdge_nodes [OF add]
  have fresh: "x \<noteq> ?e" if "edges g x = Some ed" for x ed
    using wellformed_edge [OF wf that] by (auto simp: edge_ok_def)
  show ?thesis
  proof (rule wellformedI)
    fix m n' assume "nodes g' m = Some n'"
    then obtain n where n: "nodes g m = Some n"
      and n': "n' = n\<lparr>OutEdges := (if m = source then OutEdges n @ [?e] else OutEdges n),
                       InEdges := (if m = target then InEdges n @ [?e] else InEdges n)\<rparr>"
      by (auto simp: nodes')
    have ok: "node_ok g m n" by (rule wellformed_node [OF wf n])
    have notin: "?e \<notin> set (OutEdges n)" "?e \<notin> set (InEdges n)"
      using ok fresh unfolding node_ok_def by blast+
    have out: "\<exists>ed'. edges g' x = Some ed' \<and> Source ed' = m" if "x \<in> set (OutEdges n')" for x
    proof (cases "x = ?e")
      case True
      with that n' notin have "m = source" by (auto split: if_splits)
      with True show ?thesis
        by (simp add: edges' edge EdgeSetProperties_def NewEdge_def)
    next
      case False
      with that n' have "x \<in> set (OutEdges n)" by (auto split: if_splits)
      with ok False show ?thesis by (auto simp: node_ok_def edges')
    qed
    have inn: "\<exists>ed'. edges g' x = Some ed' \<and> Target ed' = m" if "x \<in> set (InEdges n')" for x
    proof (cases "x = ?e")
      case True
      with that n' notin have "m = target" by (auto split: if_splits)
      with True show ?thesis
        by (simp add: edges' edge EdgeSetProperties_def NewEdge_def)
    next
      case False
      with that n' have "x \<in> set (InEdges n)" by (auto split: if_splits)
      with ok False show ?thesis by (auto simp: node_ok_def edges')
    qed
    from ok n' notin
    have "ID n' = m \<and> m < nextNodeID g' \<and> distinct (OutEdges n') \<and> distinct (InEdges n')"
      by (simp add: node_ok_def counters)
    with out inn show "node_ok g' m n'"
      by (simp add: node_ok_def)
  next
    fix x ed' assume x: "edges g' x = Some ed'"
    show "edge_ok g' x ed'"
    proof (cases "x = ?e")
      case True
      with x have "ed' = edge" by (simp add: edges')
      with True st nowrap show ?thesis
        by (simp add: edge_ok_def counters nodes' edge EdgeSetProperties_def NewEdge_def
            word_less_self_succ)
    next
      case False
      with x have "edges g x = Some ed'" by (simp add: edges')
      from wellformed_edge [OF wf this] obtain s' t' where
        old: "EID ed' = x" "x < ?e"
             "nodes g (Source ed') = Some s'" "x \<in> set (OutEdges s')"
             "nodes g (Target ed') = Some t'" "x \<in> set (InEdges t')"
        by (auto simp: edge_ok_def)
      have "\<exists>sa. nodes g' (Source ed') = Some sa \<and> x \<in> set (OutEdges sa)"
        using old(3,4) by (simp add: nodes')
      moreover have "\<exists>ta. nodes g' (Target ed') = Some ta \<and> x \<in> set (InEdges ta)"
        using old(5,6) by (simp add: nodes')
      ultimately show ?thesis
        using old(1,2) nowrap by (simp add: edge_ok_def counters word_less_succ)
    qed
  qed
qed

lemma inMemoryReachable_wellformed: "inMemoryReachable g \<Longrightarrow> wellformed g"
proof (induction rule: inMemoryReachable.induct)
  case reach_new
  show ?case by (rule wellformed_NewGraph)
next
  case (reach_AddNode g label props)
  then show ?case by (simp add: wellformed_AddNode)
next
  case (reach_AddEdge g source target label props edge g')
  then show ?case by (blast intro: wellformed_AddEdge)
next
  case (reach_DeleteEdge g e g')
  then show ?case by (blast intro: wellformed_DeleteEdge)
next
  case (reach_DeleteNode g n g')
  then show ?case by (blast intro: wellformed_DeleteNode)
qed


subsection \<open>Deleting a node\<close>

text \<open>In a well-formed graph, deleting an existing node \<open>n\<close> succeeds; afterwards
  \<open>GetNode n\<close> and \<open>GetEdge e\<close> for every edge \<open>e\<close> with source or target \<open>n\<close> fail with
  not-found, every other node is still there with its ID, label and properties, and
  every edge not incident to \<open>n\<close> is still there, unchanged. \<open>DeleteNode\<close> finds the edges
  to delete in the adjacency lists of \<open>n\<close>, so the statement needs them to agree with the
  edge map, which \<open>wellformed\<close> says.\<close>

lemma DeleteNode_cascade_frame:
  assumes wf: "wellformed g" and present: "nodes g n = Some node"
  shows "\<exists>g'. DeleteNode n g = Inr g'
       \<and> GetNode g' n = Inl (ErrNodeNotFound n)
       \<and> (\<forall>e ed. edges g e = Some ed \<and> (Source ed = n \<or> Target ed = n)
             \<longrightarrow> GetEdge g' e = Inl (ErrEdgeNotFound e))
       \<and> (\<forall>m nd. m \<noteq> n \<and> nodes g m = Some nd
             \<longrightarrow> (\<exists>nd'. GetNode g' m = Inr nd' \<and> ID nd' = ID nd \<and> Label nd' = Label nd
                        \<and> Properties nd' = Properties nd))
       \<and> (\<forall>e ed. edges g e = Some ed \<and> Source ed \<noteq> n \<and> Target ed \<noteq> n
             \<longrightarrow> GetEdge g' e = Inr ed)"
proof -
  let ?g2 = "DeleteEdges (InEdges node) (DeleteEdges (OutEdges node) g)"
  let ?g' = "?g2\<lparr>nodes := (nodes ?g2)(n := None)\<rparr>"
  have del: "DeleteNode n g = Inr ?g'"
    using present by (simp add: DeleteNode_def GetNode_def Let_def)
  have edges': "edges ?g2 e = (if e \<in> set (OutEdges node) \<union> set (InEdges node) then None else edges g e)" for e
    by (simp add: DeleteEdges_edges)
  have gone: "GetNode ?g' n = Inl (ErrNodeNotFound n)"
    by (simp add: GetNode_def)
  have incident: "GetEdge ?g' e = Inl (ErrEdgeNotFound e)"
    if "edges g e = Some ed" and "Source ed = n \<or> Target ed = n" for e ed
  proof -
    from wellformed_edge [OF wf that(1)] obtain s t where
      "nodes g (Source ed) = Some s" "e \<in> set (OutEdges s)"
      "nodes g (Target ed) = Some t" "e \<in> set (InEdges t)"
      unfolding edge_ok_def by blast
    with that(2) present have "e \<in> set (OutEdges node) \<union> set (InEdges node)"
      by auto
    then show ?thesis by (simp add: GetEdge_def edges')
  qed
  have others: "\<exists>nd'. GetNode ?g' m = Inr nd' \<and> ID nd' = ID nd \<and> Label nd' = Label nd
                        \<and> Properties nd' = Properties nd"
    if "m \<noteq> n" and "nodes g m = Some nd" for m nd
  proof -
    have "map_option nodePayload (nodes ?g2 m) = map_option nodePayload (nodes g m)"
      by (simp add: DeleteEdges_payload)
    with that(2) obtain nd' where "nodes ?g2 m = Some nd'" "nodePayload nd' = nodePayload nd"
      by auto
    with that(1) show ?thesis
      by (simp add: GetNode_def nodePayload_def)
  qed
  have frame: "GetEdge ?g' e = Inr ed"
    if "edges g e = Some ed" and "Source ed \<noteq> n" and "Target ed \<noteq> n" for e ed
  proof -
    have "e \<notin> set (OutEdges node) \<union> set (InEdges node)"
    proof
      assume "e \<in> set (OutEdges node) \<union> set (InEdges node)"
      with wellformed_node [OF wf present]
      obtain ed' where "edges g e = Some ed'" "Source ed' = n \<or> Target ed' = n"
        unfolding node_ok_def by blast
      with that show False by simp
    qed
    with that(1) show ?thesis by (simp add: GetEdge_def edges')
  qed
  from del gone incident others frame show ?thesis
    by blast
qed


lemma DeleteNode_cascade_frame_example:
  "wellformed exampleGraph
   \<and> nodes exampleGraph 1 = Some \<lparr>ID = 1, Label = ''Person'', Properties = [''name'' \<mapsto> VString ''Alice''],
                        OutEdges = [1], InEdges = []\<rparr>
   \<and> (\<exists>g'. DeleteNode 1 exampleGraph = Inr g'
         \<and> GetNode g' 1 = Inl (ErrNodeNotFound 1)
         \<and> GetEdge g' 1 = Inl (ErrEdgeNotFound 1)
         \<and> (\<exists>nd'. GetNode g' 2 = Inr nd' \<and> ID nd' = 2 \<and> Label nd' = ''Person''
                  \<and> Properties nd' = [''name'' \<mapsto> VString ''Bob''])
         \<and> GetEdge g' 2 = Inr \<lparr>EID = 2, Source = 2, Target = 3, ELabel = ''KNOWS'',
                                 EProperties = Map.empty\<rparr>)"
proof -
  let ?n1 = "\<lparr>ID = 1, Label = ''Person'', Properties = [''name'' \<mapsto> VString ''Alice''],
               OutEdges = [1], InEdges = []\<rparr>"
  have wf: "wellformed exampleGraph"
    unfolding wellformed_def node_ok_def edge_ok_def exampleGraph_def
    by (auto simp: word_less_nat_alt split: if_splits)
  have n1: "nodes exampleGraph 1 = Some ?n1"
    by (simp add: exampleGraph_def)
  have e1: "edges exampleGraph 1 = Some \<lparr>EID = 1, Source = 1, Target = 2, ELabel = ''KNOWS'', EProperties = Map.empty\<rparr>"
    and e2: "edges exampleGraph 2 = Some \<lparr>EID = 2, Source = 2, Target = 3, ELabel = ''KNOWS'', EProperties = Map.empty\<rparr>"
    and n2: "nodes exampleGraph 2 = Some \<lparr>ID = 2, Label = ''Person'', Properties = [''name'' \<mapsto> VString ''Bob''],
                        OutEdges = [2], InEdges = [1]\<rparr>"
    by (simp_all add: exampleGraph_def)
  from DeleteNode_cascade_frame [OF wf n1] obtain g' where
    g': "DeleteNode 1 exampleGraph = Inr g'" "GetNode g' 1 = Inl (ErrNodeNotFound 1)"
    and incident: "\<And>e ed. edges exampleGraph e = Some ed \<and> (Source ed = 1 \<or> Target ed = 1)
             \<Longrightarrow> GetEdge g' e = Inl (ErrEdgeNotFound e)"
    and others: "\<And>m nd. m \<noteq> 1 \<and> nodes exampleGraph m = Some nd
             \<Longrightarrow> (\<exists>nd'. GetNode g' m = Inr nd' \<and> ID nd' = ID nd \<and> Label nd' = Label nd
                        \<and> Properties nd' = Properties nd)"
    and frame: "\<And>e ed. edges exampleGraph e = Some ed \<and> Source ed \<noteq> 1 \<and> Target ed \<noteq> 1
             \<Longrightarrow> GetEdge g' e = Inr ed"
    by blast
  from incident [of 1] e1 have "GetEdge g' 1 = Inl (ErrEdgeNotFound 1)" by simp
  moreover from others [of 2] n2
  have "\<exists>nd'. GetNode g' 2 = Inr nd' \<and> ID nd' = 2 \<and> Label nd' = ''Person''
                  \<and> Properties nd' = [''name'' \<mapsto> VString ''Bob'']" by simp
  moreover from frame [of 2] e2
  have "GetEdge g' 2 = Inr \<lparr>EID = 2, Source = 2, Target = 3, ELabel = ''KNOWS'',
                                 EProperties = Map.empty\<rparr>" by simp
  ultimately show ?thesis using wf n1 g' by blast
qed


lemma wellformed_next_unused: "wellformed g \<Longrightarrow> nodes g (nextNodeID g) = None"
  using wellformed_node [of g "nextNodeID g"] by (cases "nodes g (nextNodeID g)") (auto simp: node_ok_def)


subsection \<open>Deleting a node after a restart from a snapshot\<close>

text \<open>
  \<open>Snapshot\<close> passes \<open>GetCurrentIndex\<close>, the index of the last entry written, to \<open>Truncate\<close>,
  which keeps the entries from that index on: the last entry stays in the log although
  the snapshot holds its effect. \<open>Recover\<close> restores the snapshot, adjacency lists
  included, and replays the whole log on top of it. When the retained entry is an
  \<open>ADD_EDGE\<close>, \<open>applyWALEntry\<close> appends the edge ID to both adjacency lists a second time.
  \<open>DeleteEdge\<close> removes one occurrence only, so a later deletion of that edge leaves its ID
  behind in both lists. A second snapshot and restart then restore no edge, the edge
  counter starts again at 1, and the next \<open>AddEdge\<close> gives the stale ID to a new edge.
  In \<open>staleAdjacencySession\<close> that edge goes from node 2 to node 3 while node 1 still
  lists its ID.
\<close>

lemma staleAdjacencySession_state:
  "\<exists>pg ed g'. session staleAdjacencySession emptyPersistentGraph = Inr pg
     \<and> map_option OutEdges (nodes (graph pg) 1) = Some [1]
     \<and> GetEdge (graph pg) 1 = Inr ed \<and> Source ed = 2 \<and> Target ed = 3
     \<and> DeleteNode 1 (graph pg) = Inr g'
     \<and> GetEdge g' 1 = Inl (ErrEdgeNotFound 1)"
  by (simp add: staleAdjacencySession_def emptyPersistentGraph_def PersistentGraph_AddNode_def
      PersistentGraph_AddEdge_def PersistentGraph_DeleteEdge_def
      PersistentGraph_Snapshot_def CreateSnapshot_def Truncate_def GetCurrentIndex_def
      reopen_def Close_def NewPersistentGraph_def Recover_def LoadLatestSnapshot_def Replay_def
      applyWALEntry_def restoreNode_def restoreEdge_def convertProperties_def
      AddNode_def NewGraph_def NewWAL_def loadLastIndex_def
      LogAddNode_def LogAddEdge_def LogDeleteEdge_def Append_def encodable_def Let_def
      AddEdge_def GetNode_def GetEdge_def SetProperties_def NewNode_def EdgeSetProperties_def
      NewEdge_def updateNode_def AddOutEdge_def AddInEdge_def DeleteEdge_def DeleteNode_def
      DeleteEdges_def ignoreError_def removeOutEdge_def removeInEdge_def jsonNode_def
      jsonEdge_def jsonProperties_def List.map_filter_def word_le_nat_alt word_less_nat_alt)

text \<open>The state that the session ends in is not well-formed.\<close>

lemma staleAdjacencySession_not_wellformed:
  "\<exists>pg. session staleAdjacencySession emptyPersistentGraph = Inr pg \<and> \<not> wellformed (graph pg)"
proof -
  from staleAdjacencySession_state obtain pg ed where
    pg: "session staleAdjacencySession emptyPersistentGraph = Inr pg"
    and n1: "map_option OutEdges (nodes (graph pg) 1) = Some [1]"
    and e1: "GetEdge (graph pg) 1 = Inr ed" "Source ed = 2"
    by blast
  have "\<not> wellformed (graph pg)"
  proof
    assume wf: "wellformed (graph pg)"
    from n1 obtain nd where nd: "nodes (graph pg) 1 = Some nd" "OutEdges nd = [1]"
      by auto
    from wellformed_node [OF wf nd(1)] nd(2) obtain ed' where
      "edges (graph pg) 1 = Some ed'" "Source ed' = 1"
      by (auto simp: node_ok_def)
    with e1 show False
      by (simp add: GetEdge_def)
  qed
  with pg show ?thesis
    by blast
qed

text \<open>\<^bold>\<open>C4\<close> does not hold in every state of the graph. The session
  \<open>staleAdjacencySession\<close> on two empty directories succeeds call by call and ends in a
  state in which node 1 exists and edge 1 goes from node 2 to node 3, so that edge 1 is
  not incident to node 1. \<open>DeleteNode 1\<close> succeeds there, and afterwards \<open>GetEdge 1\<close> fails
  with not-found: the deletion of node 1 has removed an edge between two other
  nodes.\<close>

theorem DeleteNode_removes_foreign_edge:
  "\<exists>pg ed g'. session staleAdjacencySession emptyPersistentGraph = Inr pg
     \<and> map_option ID (nodes (graph pg) 1) = Some 1
     \<and> GetEdge (graph pg) 1 = Inr ed \<and> Source ed = 2 \<and> Target ed = 3
     \<and> DeleteNode 1 (graph pg) = Inr g'
     \<and> GetEdge g' 1 = Inl (ErrEdgeNotFound 1)"
  by (simp add: staleAdjacencySession_def emptyPersistentGraph_def PersistentGraph_AddNode_def
      PersistentGraph_AddEdge_def PersistentGraph_DeleteEdge_def
      PersistentGraph_Snapshot_def CreateSnapshot_def Truncate_def GetCurrentIndex_def
      reopen_def Close_def NewPersistentGraph_def Recover_def LoadLatestSnapshot_def Replay_def
      applyWALEntry_def restoreNode_def restoreEdge_def convertProperties_def
      AddNode_def NewGraph_def NewWAL_def loadLastIndex_def
      LogAddNode_def LogAddEdge_def LogDeleteEdge_def Append_def encodable_def Let_def
      AddEdge_def GetNode_def GetEdge_def SetProperties_def NewNode_def EdgeSetProperties_def
      NewEdge_def updateNode_def AddOutEdge_def AddInEdge_def DeleteEdge_def DeleteNode_def
      DeleteEdges_def ignoreError_def removeOutEdge_def removeInEdge_def jsonNode_def
      jsonEdge_def jsonProperties_def List.map_filter_def word_le_nat_alt word_less_nat_alt)

section \<open>Properties of the write-ahead log\<close>



text \<open>\<^bold>\<open>C9.\<close> \<open>Truncate\<close> never changes the current index: whatever its outcome, \<open>GetCurrentIndex\<close>
  returns afterwards what it returned before, and a later \<open>Append\<close> that succeeds is given
  the index that follows it.\<close>

theorem Truncate_keeps_current_index:
  assumes "Truncate io keepFrom w = (None, w')"
  shows "GetCurrentIndex w' = GetCurrentIndex w
       \<and> (\<forall>aio opType d ix w''. Append aio opType d w' = (Inr ix, w'')
             \<longrightarrow> ix = GetCurrentIndex w + 1 \<and> GetCurrentIndex w'' = ix)"
proof -
  from assms have next_eq: "nextIndex w' = nextIndex w"
    by (auto simp: Truncate_def Let_def split: if_splits truncate_io.splits)
  have "ix = GetCurrentIndex w + 1 \<and> GetCurrentIndex w'' = ix"
    if "Append aio opType d w' = (Inr ix, w'')" for aio opType d ix w''
    using that next_eq
    by (auto simp: Append_def Let_def GetCurrentIndex_def split: option.splits if_splits)
  with next_eq show ?thesis
    by (simp add: GetCurrentIndex_def)
qed


theorem Truncate_keeps_current_index_witness:
  "Truncate TruncateOK 2 (NewWAL [entry1, entry2, entry3])
     = (None, \<lparr>walFile = [entry2, entry3], nextIndex = 4\<rparr>)
   \<and> GetCurrentIndex \<lparr>walFile = [entry2, entry3], nextIndex = 4\<rparr>
     = GetCurrentIndex (NewWAL [entry1, entry2, entry3])
   \<and> fst (Append AppendOK OpDeleteNode (DeleteNodeData 1)
            \<lparr>walFile = [entry2, entry3], nextIndex = 4\<rparr>) = Inr 4"
  using Truncate_keeps_current_index
          [of TruncateOK 2 "NewWAL [entry1, entry2, entry3]"
              "\<lparr>walFile = [entry2, entry3], nextIndex = 4\<rparr>"]
  by (simp add: Truncate_def NewWAL_def loadLastIndex_def entry1_def entry2_def entry3_def
      word_le_nat_alt word_less_nat_alt Append_def Let_def GetCurrentIndex_def)


section \<open>Properties of the persistent graph\<close>

lemma DeleteNode_no_edges:
  assumes "nodes g i = Some n" and "OutEdges n = []" and "InEdges n = []"
  shows "DeleteNode i g = Inr (g\<lparr>nodes := (nodes g)(i := None)\<rparr>)"
  using assms by (simp add: DeleteNode_def GetNode_def DeleteEdges_def Let_def)

text \<open>\<^bold>\<open>C3.\<close> \<open>AddNode\<close> of the persistent graph, with the log enabled, in a state whose next
  node ID is not in use: when the append to the log fails, an error is returned and the
  node map and \<open>NodeCount\<close> are what they were before the call; when it succeeds, the node
  is returned and is in the node map.\<close>

theorem PersistentGraph_AddNode_rollback:
  assumes fresh: "nodes (graph pg) (nextNodeID (graph pg)) = None"
    and enabled: "walEnabled pg"
  shows "(\<forall>err w1. LogAddNode io (nextNodeID (graph pg)) label props (wal pg) = (Some err, w1) \<longrightarrow>
            (\<exists>err' pg'. PersistentGraph_AddNode io label props pg = (Inl err', pg')
               \<and> nodes (graph pg') = nodes (graph pg)
               \<and> NodeCount (graph pg') = NodeCount (graph pg)))
       \<and> (\<forall>w1. LogAddNode io (nextNodeID (graph pg)) label props (wal pg) = (None, w1) \<longrightarrow>
            (\<exists>node pg'. PersistentGraph_AddNode io label props pg = (Inr node, pg')
               \<and> GetNode (graph pg') (ID node) = Inr node
               \<and> Label node = label))"
proof (intro conjI allI impI)
  fix err w1
  assume failed: "LogAddNode io (nextNodeID (graph pg)) label props (wal pg) = (Some err, w1)"
  let ?i = "nextNodeID (graph pg)"
  let ?node = "SetProperties props (NewNode ?i label)"
  let ?g1 = "snd (AddNode label props (graph pg))"
  have stored: "nodes ?g1 ?i = Some ?node"
    by (simp add: AddNode_result)
  have "DeleteNode ?i ?g1 = Inr (?g1\<lparr>nodes := (nodes ?g1)(?i := None)\<rparr>)"
    by (rule DeleteNode_no_edges [OF stored]) (simp_all add: SetProperties_def NewNode_def)
  moreover have "(nodes ?g1)(?i := None) = nodes (graph pg)"
    using fresh by (auto simp: AddNode_result)
  ultimately have restored: "nodes (ignoreError (DeleteNode ?i ?g1) ?g1) = nodes (graph pg)"
    by (simp add: ignoreError_def)
  have id_node: "ID ?node = ?i"
    by (simp add: SetProperties_def NewNode_def)
  have result: "PersistentGraph_AddNode io label props pg =
      (Inl (ErrWrap ''failed to log node addition'' err),
       pg\<lparr>graph := ignoreError (DeleteNode ?i ?g1) ?g1, wal := w1\<rparr>)"
    using failed enabled id_node
    by (simp add: PersistentGraph_AddNode_def AddNode_result)
  show "\<exists>err' pg'. PersistentGraph_AddNode io label props pg = (Inl err', pg')
          \<and> nodes (graph pg') = nodes (graph pg)
          \<and> NodeCount (graph pg') = NodeCount (graph pg)"
    using result restored by (simp add: NodeCount_def)
next
  fix w1
  assume logged: "LogAddNode io (nextNodeID (graph pg)) label props (wal pg) = (None, w1)"
  let ?i = "nextNodeID (graph pg)"
  let ?node = "SetProperties props (NewNode ?i label)"
  have id_node: "ID ?node = ?i" and label_node: "Label ?node = label"
    by (simp_all add: SetProperties_def NewNode_def)
  have "PersistentGraph_AddNode io label props pg =
      (Inr ?node, pg\<lparr>graph := snd (AddNode label props (graph pg)), wal := w1\<rparr>)"
    using logged enabled id_node
    by (simp add: PersistentGraph_AddNode_def AddNode_result)
  then show "\<exists>node pg'. PersistentGraph_AddNode io label props pg = (Inr node, pg')
          \<and> GetNode (graph pg') (ID node) = Inr node \<and> Label node = label"
    using id_node label_node by (simp add: AddNode_result GetNode_def)
qed

theorem PersistentGraph_AddNode_rollback_witness:
  "nodes (graph emptyPersistentGraph) (nextNodeID (graph emptyPersistentGraph)) = None
   \<and> walEnabled emptyPersistentGraph
   \<and> (\<exists>err' pg'. PersistentGraph_AddNode AppendSyncFails ''Person'' Map.empty emptyPersistentGraph
                     = (Inl err', pg')
         \<and> nodes (graph pg') = nodes (graph emptyPersistentGraph)
         \<and> NodeCount (graph pg') = NodeCount (graph emptyPersistentGraph))
   \<and> (\<exists>node pg'. PersistentGraph_AddNode AppendOK ''Person'' Map.empty emptyPersistentGraph
                     = (Inr node, pg')
         \<and> GetNode (graph pg') (ID node) = Inr node
         \<and> Label node = ''Person'')"
  using PersistentGraph_AddNode_rollback
          [of emptyPersistentGraph AppendSyncFails "''Person''" Map.empty]
        PersistentGraph_AddNode_rollback
          [of emptyPersistentGraph AppendOK "''Person''" Map.empty]
  by (simp add: emptyPersistentGraph_def NewGraph_def NewWAL_def loadLastIndex_def
      LogAddNode_def Append_def encodable_def Let_def)


subsection \<open>Reopening after a sequence of mutations\<close>

lemma jsonGraph_fields [simp]:
  "nodes (jsonGraph g) i = map_option jsonNode (nodes g i)"
  "edges (jsonGraph g) e = map_option jsonEdge (edges g e)"
  "nextNodeID (jsonGraph g) = nextNodeID g"
  "nextEdgeID (jsonGraph g) = nextEdgeID g"
  by (simp_all add: jsonGraph_def)



lemma jsonNode_adjacency [simp]:
  "jsonNode (AddOutEdge e n) = AddOutEdge e (jsonNode n)"
  "jsonNode (AddInEdge e n) = AddInEdge e (jsonNode n)"
  "jsonNode (removeOutEdge e n) = removeOutEdge e (jsonNode n)"
  "jsonNode (removeInEdge e n) = removeInEdge e (jsonNode n)"
  by (simp_all add: jsonNode_def AddOutEdge_def AddInEdge_def removeOutEdge_def removeInEdge_def)

lemma jsonNode_fields [simp]:
  "ID (jsonNode n) = ID n" "Label (jsonNode n) = Label n"
  "OutEdges (jsonNode n) = OutEdges n" "InEdges (jsonNode n) = InEdges n"
  "Properties (jsonNode n) = jsonProperties (Properties n)"
  by (simp_all add: jsonNode_def)

lemma jsonEdge_fields [simp]:
  "EID (jsonEdge e) = EID e" "Source (jsonEdge e) = Source e" "Target (jsonEdge e) = Target e"
  "ELabel (jsonEdge e) = ELabel e" "EProperties (jsonEdge e) = jsonProperties (EProperties e)"
  by (simp_all add: jsonEdge_def)






lemma jsonProperties_empty_add [simp]: "Map.empty ++ jsonProperties props = jsonProperties props"
  by simp






















lemma NewPersistentGraph_empty: "NewPersistentGraph [] None = Inr emptyPersistentGraph"
  by (simp add: NewPersistentGraph_def Recover_def LoadLatestSnapshot_def Replay_def
      emptyPersistentGraph_def NewWAL_def)






lemma jsonValue_native:
  "jsonValue VNil = Some VNil" "jsonValue (VBool b) = Some (VBool b)"
  "jsonValue (VString s) = Some (VString s)" "jsonValue (VFloat64 (Fin r)) = Some (VFloat64 (Fin r))"
  by simp_all

lemma jsonValue_float64_of_int:
  "jsonValue (VFloat64 (float64_of_int i)) = Some (VFloat64 (float64_of_int i))"
  unfolding float64_of_int_def by (rule jsonValue.simps)

lemma jsonValue_idempotent: "jsonValue v = Some v' \<Longrightarrow> jsonValue v' = Some v'"
  by (cases v rule: jsonValue.cases) (auto simp: jsonValue_float64_of_int)



section \<open>Properties of the lexer\<close>

lemma toUpperByte_not_lower: "\<not> (CHR ''a'' \<le> toUpperByte c \<and> toUpperByte c \<le> CHR ''z'')"
  by (auto simp: toUpperByte_def less_eq_char_def)

lemma ToUpper_neq_true: "ToUpper s \<noteq> ''true''"
proof
  assume "ToUpper s = ''true''"
  then have "toUpperByte (hd s) = CHR ''t''" by (cases s) (auto simp: ToUpper_def)
  with toUpperByte_not_lower [of "hd s"] show False by (simp add: less_eq_char_def)
qed

lemma ToUpper_neq_false: "ToUpper s \<noteq> ''false''"
proof
  assume "ToUpper s = ''false''"
  then have "toUpperByte (hd s) = CHR ''f''" by (cases s) (auto simp: ToUpper_def)
  with toUpperByte_not_lower [of "hd s"] show False by (simp add: less_eq_char_def)
qed

text \<open>The lookup upper-cases the word first, so the two lower-case keys of the table are
  never found: no word is a \<open>TokenTrue\<close> or a \<open>TokenFalse\<close>.\<close>

lemma lookupKeyword_never_boolean:
  "lookupKeyword ident \<noteq> TokenTrue \<and> lookupKeyword ident \<noteq> TokenFalse"
  using ToUpper_neq_true [of ident] ToUpper_neq_false [of ident]
  by (auto simp: lookupKeyword_def keywordTable_def split: option.splits if_splits)

text \<open>The eight upper-case keys are matched whatever the case of the word.\<close>

lemma lookupKeyword_case_insensitive:
  "ToUpper ident = ''MATCH'' \<Longrightarrow> lookupKeyword ident = TokenMatch"
  "ToUpper ident = ''WHERE'' \<Longrightarrow> lookupKeyword ident = TokenWhere"
  "ToUpper ident = ''RETURN'' \<Longrightarrow> lookupKeyword ident = TokenReturn"
  "ToUpper ident = ''LIMIT'' \<Longrightarrow> lookupKeyword ident = TokenLimit"
  "ToUpper ident = ''ORDER'' \<Longrightarrow> lookupKeyword ident = TokenOrderBy"
  "ToUpper ident = ''BY'' \<Longrightarrow> lookupKeyword ident = TokenOrderBy"
  "ToUpper ident = ''AND'' \<Longrightarrow> lookupKeyword ident = TokenAnd"
  "ToUpper ident = ''OR'' \<Longrightarrow> lookupKeyword ident = TokenOr"
  by (simp_all add: lookupKeyword_def keywordTable_def)

text \<open>\<^bold>\<open>C5.\<close> The claim asks for \<open>TokenTrue\<close> on the input \<open>true\<close> and \<open>TokenFalse\<close> on \<open>FALSE\<close>. The
  lexer returns an identifier token for both, and for every other spelling of the two
  words.\<close>

theorem lexer_true_false_are_identifiers:
  "Tokenize ''true'' = [(TokenIdentifier, ''true'')]
   \<and> Tokenize ''FALSE'' = [(TokenIdentifier, ''FALSE'')]
   \<and> lookupKeyword ''true'' = TokenIdentifier
   \<and> lookupKeyword ''false'' = TokenIdentifier
   \<and> lookupKeyword ''TRUE'' = TokenIdentifier"
  by code_simp


subsection \<open>Re-lexing the literals\<close>

text \<open>The lexer state in terms of the unread input.\<close>

lemma ch_remaining:
  "lexerOK l \<Longrightarrow> ch l = (case remaining l of [] \<Rightarrow> CHR 0x00 | c # cs \<Rightarrow> c)"
  by (auto simp: lexerOK_def remaining_def Cons_nth_drop_Suc [symmetric] split: list.splits)

lemma peekChar_remaining:
  "lexerOK l \<Longrightarrow> peekChar l = (case remaining l of c # d # cs \<Rightarrow> d | _ \<Rightarrow> CHR 0x00)"
proof -
  assume ok: "lexerOK l"
  have "drop (Suc (position l)) (input l) = tl (remaining l)"
    by (simp add: remaining_def drop_Suc tl_drop)
  moreover have "peekChar l = (case drop (Suc (position l)) (input l) of [] \<Rightarrow> CHR 0x00 | d # cs \<Rightarrow> d)"
    using ok
    by (auto simp: peekChar_def lexerOK_def Cons_nth_drop_Suc [symmetric] split: list.splits)
  ultimately show ?thesis
    by (cases "remaining l") (auto split: list.splits)
qed

lemma readChar_OK:
  "lexerOK l \<Longrightarrow> lexerOK (readChar l) \<and> remaining (readChar l) = tl (remaining l)
     \<and> position (readChar l) = Suc (position l) \<and> input (readChar l) = input l"
  by (auto simp: lexerOK_def remaining_def drop_Suc tl_drop)

lemma NewLexer_OK: "lexerOK (NewLexer s) \<and> remaining (NewLexer s) = s \<and> input (NewLexer s) = s"
  by (auto simp: NewLexer_def lexerOK_def remaining_def)

lemma remaining_Cons:
  "lexerOK l \<Longrightarrow> ch l \<noteq> CHR 0x00 \<Longrightarrow> remaining l = ch l # tl (remaining l)"
  by (cases "remaining l") (auto simp: ch_remaining)

lemma skipWhitespace_OK:
  "lexerOK l \<Longrightarrow>
     lexerOK (skipWhitespace l) \<and> input (skipWhitespace l) = input l
     \<and> remaining (skipWhitespace l) = dropWhile isWhitespace (remaining l)"
proof (induction l rule: skipWhitespace.induct)
  case (1 l)
  show ?case
  proof (cases "isWhitespace (ch l)")
    case True
    then have nz: "ch l \<noteq> CHR 0x00" by (auto simp: isWhitespace_def)
    from remaining_Cons [OF "1.prems" nz] True
    have "dropWhile isWhitespace (remaining l) = dropWhile isWhitespace (tl (remaining l))"
      by (metis dropWhile.simps(2))
    with "1.IH" [OF True] readChar_OK [OF "1.prems"] True show ?thesis
      by (simp add: skipWhitespace.simps [of l])
  next
    case False
    with "1.prems" show ?thesis
      by (cases "remaining l") (auto simp: skipWhitespace.simps [of l] ch_remaining isWhitespace_def)
  qed
qed

lemma readDigits_OK:
  "lexerOK l \<Longrightarrow>
     lexerOK (readDigits l) \<and> input (readDigits l) = input l
     \<and> remaining (readDigits l) = dropWhile isDigit (remaining l)
     \<and> position (readDigits l) = position l + length (takeWhile isDigit (remaining l))"
proof (induction l rule: readDigits.induct)
  case (1 l)
  have nd0: "\<not> isDigit (CHR 0x00)" by (simp add: isDigit_def less_eq_char_def)
  show ?case
  proof (cases "isDigit (ch l)")
    case True
    then have nz: "ch l \<noteq> CHR 0x00" using nd0 by auto
    note rc = remaining_Cons [OF "1.prems" nz]
    have "dropWhile isDigit (remaining l) = dropWhile isDigit (tl (remaining l))"
      "takeWhile isDigit (remaining l) = ch l # takeWhile isDigit (tl (remaining l))"
      using True by (subst rc, simp)+
    with "1.IH" [OF True] readChar_OK [OF "1.prems"] True show ?thesis
      by (simp add: readDigits.simps [of l])
  next
    case False
    then have stay: "readDigits l = l"
      by (simp add: readDigits.simps [of l])
    from False nd0 ch_remaining [OF "1.prems"]
    have "dropWhile isDigit (remaining l) = remaining l" "takeWhile isDigit (remaining l) = []"
      by (cases "remaining l"; simp)+
    with stay "1.prems" show ?thesis
      by simp
  qed
qed

lemma readIdentifierChars_OK:
  "lexerOK l \<Longrightarrow>
     lexerOK (readIdentifierChars l) \<and> input (readIdentifierChars l) = input l
     \<and> remaining (readIdentifierChars l) = dropWhile isIdentifierChar (remaining l)
     \<and> position (readIdentifierChars l)
         = position l + length (takeWhile isIdentifierChar (remaining l))"
proof (induction l rule: readIdentifierChars.induct)
  case (1 l)
  have nd0: "\<not> isIdentifierChar (CHR 0x00)"
    by (simp add: isIdentifierChar_def isLetter_def isDigit_def less_eq_char_def)
  have cond: "(isLetter (ch l) \<or> isDigit (ch l) \<or> ch l = CHR ''_'') = isIdentifierChar (ch l)"
    by (simp add: isIdentifierChar_def)
  show ?case
  proof (cases "isIdentifierChar (ch l)")
    case True
    then have nz: "ch l \<noteq> CHR 0x00" using nd0 by auto
    note rc = remaining_Cons [OF "1.prems" nz]
    have "dropWhile isIdentifierChar (remaining l) = dropWhile isIdentifierChar (tl (remaining l))"
      "takeWhile isIdentifierChar (remaining l)
         = ch l # takeWhile isIdentifierChar (tl (remaining l))"
      using True by (subst rc, simp)+
    with "1.IH" [OF True [folded cond]] readChar_OK [OF "1.prems"] True show ?thesis
      by (simp add: readIdentifierChars.simps [of l] cond)
  next
    case False
    then have stay: "readIdentifierChars l = l"
      by (simp add: readIdentifierChars.simps [of l] cond)
    from False nd0 ch_remaining [OF "1.prems"]
    have "dropWhile isIdentifierChar (remaining l) = remaining l"
      "takeWhile isIdentifierChar (remaining l) = []"
      by (cases "remaining l"; simp)+
    with stay "1.prems" show ?thesis
      by simp
  qed
qed

lemma slice_remaining:
  "slice (input l) (position l) (position l + n) = take n (remaining l)"
  by (simp add: slice_def remaining_def)

lemma readIdentifier_OK:
  assumes "lexerOK l"
  shows "fst (readIdentifier l) = takeWhile isIdentifierChar (remaining l)
       \<and> lexerOK (snd (readIdentifier l))
       \<and> remaining (snd (readIdentifier l)) = dropWhile isIdentifierChar (remaining l)"
  using readIdentifierChars_OK [OF assms]
  by (simp add: readIdentifier_def Let_def slice_remaining takeWhile_eq_take [symmetric])

lemma readNumber_OK:
  assumes ok: "lexerOK l"
  shows "fst (readNumber l) = fst (numberSplit (remaining l))
       \<and> lexerOK (snd (readNumber l))
       \<and> remaining (snd (readNumber l)) = snd (numberSplit (remaining l))"
proof -
  let ?s = "remaining l"
  let ?ds = "takeWhile isDigit ?s"
  let ?r = "dropWhile isDigit ?s"
  let ?l1 = "readDigits l"
  note l1 = readDigits_OK [OF ok]
  then have ok1: "lexerOK ?l1" and in1: "input ?l1 = input l" and rem1: "remaining ?l1 = ?r"
    and pos1: "position ?l1 = position l + length ?ds"
    by simp_all
  have nd0: "\<not> isDigit (CHR 0x00)" by (simp add: isDigit_def less_eq_char_def)
  show ?thesis
  proof (cases "ch ?l1 = CHR ''.'' \<and> isDigit (peekChar ?l1)")
    case False
    then have "(if ch ?l1 = CHR ''.'' \<and> isDigit (peekChar ?l1) then readDigits (readChar ?l1) else ?l1) = ?l1"
      by (rule if_not_P)
    then have "readNumber l = (slice (input ?l1) (position l) (position ?l1), ?l1)"
      by (simp add: readNumber_def Let_def)
    moreover have "numberSplit ?s = (?ds, ?r)"
    proof (cases ?r)
      case Nil
      show ?thesis unfolding numberSplit_def Let_def Nil by simp
    next
      case outer: (Cons c cs)
      show ?thesis
      proof (cases cs)
        case Nil
        show ?thesis unfolding numberSplit_def Let_def outer Nil by simp
      next
        case (Cons d r')
        with outer have r: "?r = c # d # r'" by simp
        with ch_remaining [OF ok1] peekChar_remaining [OF ok1]
        have "ch ?l1 = c" "peekChar ?l1 = d" by (simp_all add: rem1)
        with False show ?thesis unfolding numberSplit_def Let_def r by auto
      qed
    qed
    ultimately show ?thesis
      using ok1 rem1 by (simp add: in1 pos1 slice_remaining takeWhile_eq_take [symmetric])
  next
    case True
    with nd0 ch_remaining [OF ok1] peekChar_remaining [OF ok1]
    obtain d r' where r: "?r = CHR ''.'' # d # r'" and d: "isDigit d"
      by (auto simp: rem1 split: list.splits)
    let ?l2 = "readDigits (readChar ?l1)"
    note rc = readChar_OK [OF ok1]
    then have okc: "lexerOK (readChar ?l1)" by simp
    note l2 = readDigits_OK [OF okc]
    have rem2: "remaining ?l2 = dropWhile isDigit (d # r')"
      using l2 rc by (simp add: rem1 r)
    have pos2: "position ?l2 = position l + (length ?ds + 1 + length (takeWhile isDigit (d # r')))"
      using l2 rc by (simp add: rem1 r pos1)
    have in2: "input ?l2 = input l"
      using l2 rc in1 by simp
    have whole: "?s = ?ds @ CHR ''.'' # takeWhile isDigit (d # r') @ dropWhile isDigit (d # r')"
      using r takeWhile_dropWhile_id [of isDigit ?s] by simp
    have "take (length ?ds + 1 + length (takeWhile isDigit (d # r'))) ?s
            = ?ds @ CHR ''.'' # takeWhile isDigit (d # r')"
      by (subst whole) simp
    then have lit: "slice (input ?l2) (position l) (position ?l2)
            = ?ds @ CHR ''.'' # takeWhile isDigit (d # r')"
      by (simp only: in2 pos2 slice_remaining)
    from True have "(if ch ?l1 = CHR ''.'' \<and> isDigit (peekChar ?l1) then readDigits (readChar ?l1) else ?l1) = ?l2"
      by (rule if_P)
    then have "readNumber l = (slice (input ?l2) (position l) (position ?l2), ?l2)"
      by (simp add: readNumber_def Let_def)
    moreover have "numberSplit ?s
        = (?ds @ CHR ''.'' # takeWhile isDigit (d # r'), dropWhile isDigit (d # r'))"
      using d unfolding numberSplit_def Let_def r by simp
    ultimately show ?thesis
      using l2 lit rem2 by simp
  qed
qed

lemma oneByteToken_OK:
  assumes "lexerOK l" "remaining l = c # cs"
  shows "Type (fst (oneByteToken l ty)) = ty \<and> Literal (fst (oneByteToken l ty)) = stringOfByte c
       \<and> lexerOK (snd (oneByteToken l ty)) \<and> remaining (snd (oneByteToken l ty)) = cs"
  using assms readChar_OK [OF assms(1)] ch_remaining [OF assms(1)]
  by (simp add: oneByteToken_def newToken_def)

lemma twoByteToken_OK:
  assumes "lexerOK l" "remaining l = c # cs"
  shows "Type (fst (twoByteToken l ty)) = ty
       \<and> Literal (fst (twoByteToken l ty)) = stringOfByte c @ stringOfByte (peekChar l)
       \<and> lexerOK (snd (twoByteToken l ty)) \<and> remaining (snd (twoByteToken l ty)) = tl cs"
proof -
  note rc = readChar_OK [OF assms(1)]
  then have ok1: "lexerOK (readChar l)" by simp
  from ch_remaining [OF ok1] rc peekChar_remaining [OF assms(1)] assms(2)
  have "ch (readChar l) = peekChar l"
    by (simp split: list.splits)
  with readChar_OK [OF ok1] rc assms ch_remaining [OF assms(1)] show ?thesis
    by (simp add: twoByteToken_def newToken_def Let_def)
qed

lemma NextToken_scan:
  assumes ok0: "lexerOK l0"
    and scan: "scanToken (dropWhile isWhitespace (remaining l0)) = Some (ty, lit, r)"
  shows "Type (fst (NextToken l0)) = ty \<and> Literal (fst (NextToken l0)) = lit
       \<and> lexerOK (snd (NextToken l0)) \<and> remaining (snd (NextToken l0)) = r"
proof -
  let ?l = "skipWhitespace l0"
  let ?s = "dropWhile isWhitespace (remaining l0)"
  from skipWhitespace_OK [OF ok0] have ok: "lexerOK ?l" and rem: "remaining ?l = ?s"
    by simp_all
  show ?thesis
  proof (cases ?s)
    case Nil
    with ch_remaining [OF ok] rem have c0: "ch ?l = CHR 0x00" by simp
    from scan Nil have "ty = TokenEOF" "lit = []" "r = []"
      by (simp_all add: scanToken_def)
    with c0 readChar_OK [OF ok] rem Nil show ?thesis
      by (simp add: NextToken_def Let_def)
  next
    case (Cons c cs)
    with rem have remc: "remaining ?l = c # cs" by simp
    with ch_remaining [OF ok] have c: "ch ?l = c" by simp
    from peekChar_remaining [OF ok] remc
    have d: "peekChar ?l = (case cs of [] \<Rightarrow> CHR 0x00 | d # ds \<Rightarrow> d)"
      by (simp split: list.splits)
    note one = oneByteToken_OK [OF ok remc]
    note two = twoByteToken_OK [OF ok remc]
    note idt = readIdentifier_OK [OF ok]
    note num = readNumber_OK [OF ok]
    note rc = readChar_OK [OF ok]
    from scan show ?thesis
      unfolding Cons [symmetric]
      apply (simp only: NextToken_def Let_def c)
      apply (simp only: scanToken_def Cons list.case Let_def d [symmetric])
      apply (auto simp add: one two idt num rc remc rem Cons case_prod_beta stringOfByte_def d
          split: if_splits)
      done
  qed
qed

text \<open>Every token that \<open>scanToken\<close> gives, other than end of input and illegal tokens, is a
  \<open>goodToken\<close>; and a \<open>goodToken\<close> is what \<open>scanToken\<close> gives on its own literal followed by
  a space or by nothing.\<close>

lemma numberSplit_literal:
  assumes "isDigit c"
  shows "numberLiteral (fst (numberSplit (c # cs)))"
proof -
  let ?s = "c # cs"
  let ?ds = "takeWhile isDigit ?s"
  have ds: "?ds \<noteq> []" "list_all isDigit ?ds"
    using assms by (simp_all add: list_all_iff) (auto dest: set_takeWhileD)
  show ?thesis
  proof (cases "\<exists>d r'. dropWhile isDigit ?s = CHR ''.'' # d # r' \<and> isDigit d")
    case True
    then obtain d r' where r: "dropWhile isDigit ?s = CHR ''.'' # d # r'" and d: "isDigit d"
      by blast
    have "fst (numberSplit ?s) = ?ds @ CHR ''.'' # takeWhile isDigit (d # r')"
      using d unfolding numberSplit_def Let_def r by simp
    moreover have "takeWhile isDigit (d # r') \<noteq> []" "list_all isDigit (takeWhile isDigit (d # r'))"
      using d by (simp_all add: list_all_iff) (auto dest: set_takeWhileD)
    ultimately show ?thesis
      unfolding numberLiteral_def using ds by blast
  next
    case False
    have "fst (numberSplit ?s) = ?ds"
    proof (cases "dropWhile isDigit ?s")
      case Nil
      show ?thesis unfolding numberSplit_def Let_def Nil by simp
    next
      case outer: (Cons x xs)
      show ?thesis
      proof (cases xs)
        case Nil
        show ?thesis unfolding numberSplit_def Let_def outer Nil by simp
      next
        case (Cons y ys)
        with outer False have "\<not> (x = CHR ''.'' \<and> isDigit y)" by simp
        then show ?thesis unfolding numberSplit_def Let_def outer Cons by auto
      qed
    qed
    with ds show ?thesis
      unfolding numberLiteral_def by blast
  qed
qed

lemma goodToken_punctuation: "list_all goodToken punctuation"
  by (simp add: goodToken_def punctuation_def)

lemmas goodToken_punct = goodToken_punctuation [unfolded punctuation_def list.pred_inject(2) list.pred_inject(1) simp_thms]

lemma goodToken_word: "wordLiteral lit \<Longrightarrow> goodToken (lookupKeyword lit, lit)"
  by (simp add: goodToken_def)

lemma goodToken_number: "numberLiteral lit \<Longrightarrow> goodToken (TokenNumber, lit)"
  by (simp add: goodToken_def)

lemma scanToken_good:
  assumes "scanToken s = Some (ty, lit, r)" "ty \<noteq> TokenEOF" "ty \<noteq> TokenIllegal"
  shows "goodToken (ty, lit)"
proof (cases s)
  case Nil
  with assms show ?thesis by (simp add: scanToken_def)
next
  case (Cons c cs)
  define d where "d = (case cs of [] \<Rightarrow> CHR 0x00 | d # ds \<Rightarrow> d)"
  define w where "w = takeWhile isIdentifierChar (c # cs)"
  define n where "n = fst (numberSplit (c # cs))"
  have word: "wordLiteral w" if "isLetter c"
    using that unfolding w_def
    by (auto simp: wordLiteral_def isIdentifierChar_def list_all_iff dest: set_takeWhileD)
  have num: "numberLiteral n" if "isDigit c"
    using that unfolding n_def by (rule numberSplit_literal)
  from assms(1) have scan: "scanToken (c # cs) = Some (ty, lit, r)"
    by (simp only: Cons)
  show ?thesis
    using scan assms(2,3) word num
    unfolding scanToken_def list.case Let_def d_def [symmetric] w_def [symmetric] n_def [symmetric]
    by (auto simp: goodToken_punct intro: goodToken_word goodToken_number split: if_splits)
qed

lemma isLetter_not_special:
  assumes "isLetter c"
  shows "c \<notin> {CHR ''('', CHR '')'', CHR ''['', CHR '']'', CHR ''{'', CHR ''}'', CHR '','', CHR ''.'',
              CHR '':'', CHR ''*'', CHR ''-'', CHR ''<'', CHR ''>'', CHR ''='', CHR ''!'', CHR 0x22,
              CHR 0x27, CHR 0x00, CHR '' '', CHR 0x09, CHR 0x0A, CHR 0x0D}"
  using assms by (auto simp: isLetter_def less_eq_char_def)

lemma isDigit_not_special:
  assumes "isDigit c"
  shows "c \<notin> {CHR ''('', CHR '')'', CHR ''['', CHR '']'', CHR ''{'', CHR ''}'', CHR '','', CHR ''.'',
              CHR '':'', CHR ''*'', CHR ''-'', CHR ''<'', CHR ''>'', CHR ''='', CHR ''!'', CHR 0x22,
              CHR 0x27, CHR 0x00, CHR '' '', CHR 0x09, CHR 0x0A, CHR 0x0D}"
    and "\<not> isLetter c"
  using assms by (auto simp: isLetter_def isDigit_def less_eq_char_def)

lemma scanToken_word:
  assumes "isLetter c"
  shows "scanToken (c # cs) =
           Some (lookupKeyword (takeWhile isIdentifierChar (c # cs)),
                 takeWhile isIdentifierChar (c # cs), dropWhile isIdentifierChar (c # cs))"
  using isLetter_not_special [OF assms] assms
  unfolding scanToken_def list.case Let_def by simp

lemma scanToken_digit:
  assumes "isDigit c"
  shows "scanToken (c # cs) = Some (TokenNumber, fst (numberSplit (c # cs)), snd (numberSplit (c # cs)))"
  using isDigit_not_special [OF assms] assms
  unfolding scanToken_def list.case Let_def by simp

lemma scanToken_punctuation:
  assumes "separated r"
  shows "list_all (\<lambda>t. scanToken (snd t @ r) = Some (fst t, snd t, r)) punctuation"
  using assms
  by (cases r) (simp_all add: separated_def punctuation_def scanToken_def Let_def)

lemma takeWhile_separated:
  assumes "list_all P xs" "\<not> P (CHR '' '')" "separated r"
  shows "takeWhile P (xs @ r) = xs" "dropWhile P (xs @ r) = r"
  using assms by (cases r; simp add: separated_def list_all_iff)+

lemma notDigit_space: "\<not> isDigit (CHR '' '')" "\<not> isIdentifierChar (CHR '' '')"
  by (simp_all add: isDigit_def isIdentifierChar_def isLetter_def less_eq_char_def)

lemma numberSplit_separated:
  assumes "numberLiteral lit" "separated r"
  shows "numberSplit (lit @ r) = (lit, r)"
proof -
  from assms(1) obtain ds where ds: "ds \<noteq> []" "list_all isDigit ds"
    and lit: "lit = ds \<or> (\<exists>fs. fs \<noteq> [] \<and> list_all isDigit fs \<and> lit = ds @ CHR ''.'' # fs)"
    unfolding numberLiteral_def by blast
  from lit show ?thesis
  proof
    assume l: "lit = ds"
    note tw = takeWhile_separated [OF ds(2) notDigit_space(1) assms(2)]
    show ?thesis
      using assms(2) unfolding numberSplit_def Let_def l tw
      by (auto simp: separated_def notDigit_space split: list.splits)
  next
    assume "\<exists>fs. fs \<noteq> [] \<and> list_all isDigit fs \<and> lit = ds @ CHR ''.'' # fs"
    then obtain fs where fs: "fs \<noteq> []" "list_all isDigit fs" and l: "lit = ds @ CHR ''.'' # fs"
      by blast
    from fs(1) obtain d fs' where fs': "fs = d # fs'" by (cases fs) auto
    with fs(2) have d: "isDigit d" by simp
    have nd: "\<not> isDigit (CHR ''.'')" by (simp add: isDigit_def less_eq_char_def)
    have t1: "takeWhile isDigit (lit @ r) = ds" "dropWhile isDigit (lit @ r) = CHR ''.'' # d # (fs' @ r)"
      using ds(2) nd unfolding l fs' by (simp_all add: list_all_iff)
    have tw: "takeWhile isDigit (d # fs' @ r) = d # fs'" "dropWhile isDigit (d # fs' @ r) = r"
      using takeWhile_separated [OF fs(2) notDigit_space(1) assms(2)]
      by (simp_all only: fs' append_Cons)
    show ?thesis
      using d unfolding numberSplit_def Let_def t1 list.case tw by (simp add: l fs')
  qed
qed

lemma numberLiteral_hd:
  assumes "numberLiteral lit"
  obtains c cs where "lit = c # cs" "isDigit c"
proof -
  from assms obtain ds where ds: "ds \<noteq> []" "list_all isDigit ds"
    and lit: "lit = ds \<or> (\<exists>fs. lit = ds @ CHR ''.'' # fs)"
    unfolding numberLiteral_def by blast
  from ds obtain c ds' where "ds = c # ds'" "isDigit c"
    by (cases ds) auto
  with lit that show thesis
    by auto
qed

lemma scanToken_separated:
  assumes good: "goodToken (ty, lit)" and sep: "separated r"
  shows "scanToken (lit @ r) = Some (ty, lit, r)"
proof -
  from good consider (punct) "(ty, lit) \<in> set punctuation"
    | (word) "wordLiteral lit" "ty = lookupKeyword lit"
    | (number) "ty = TokenNumber" "numberLiteral lit"
    unfolding goodToken_def by auto
  then show ?thesis
  proof cases
    case punct
    with scanToken_punctuation [OF sep] show ?thesis
      by (auto simp: list_all_iff)
  next
    case word
    then obtain c cs where lit: "lit = c # cs" and c: "isLetter c"
      and all: "list_all isIdentifierChar lit"
      by (cases lit) (auto simp: wordLiteral_def)
    from scanToken_word [OF c, of "cs @ r"] have
      "scanToken (lit @ r) = Some (lookupKeyword (takeWhile isIdentifierChar (lit @ r)),
                 takeWhile isIdentifierChar (lit @ r), dropWhile isIdentifierChar (lit @ r))"
      by (simp only: lit append_Cons)
    with takeWhile_separated [OF all notDigit_space(2) sep] word(2) show ?thesis
      by simp
  next
    case number
    then obtain c cs where lit: "lit = c # cs" and c: "isDigit c"
      by (auto elim: numberLiteral_hd)
    from scanToken_digit [OF c, of "cs @ r"] have
      "scanToken (lit @ r) = Some (TokenNumber, fst (numberSplit (lit @ r)), snd (numberSplit (lit @ r)))"
      by (simp only: lit append_Cons)
    with numberSplit_separated [OF number(2) sep] number(1) show ?thesis
      by simp
  qed
qed

lemma goodToken_literal:
  assumes "goodToken (ty, lit)"
  shows "lit \<noteq> []" "\<not> isWhitespace (hd lit)" "ty \<noteq> TokenEOF"
proof -
  from assms consider (punct) "(ty, lit) \<in> set punctuation"
    | (word) "wordLiteral lit" "ty = lookupKeyword lit"
    | (number) "ty = TokenNumber" "numberLiteral lit"
    unfolding goodToken_def by auto
  then have "lit \<noteq> [] \<and> \<not> isWhitespace (hd lit) \<and> ty \<noteq> TokenEOF"
  proof cases
    case punct
    then show ?thesis by (auto simp: punctuation_def isWhitespace_def)
  next
    case word
    then have "lit \<noteq> []" "isLetter (hd lit)" by (simp_all add: wordLiteral_def)
    with isLetter_not_special [of "hd lit"] word(2) show ?thesis
      by (simp add: isWhitespace_def)
  next
    case number
    then obtain c cs where lit: "lit = c # cs" and c: "isDigit c"
      by (auto elim: numberLiteral_hd)
    with isDigit_not_special(1) [OF c] number(1) show ?thesis
      by (simp add: isWhitespace_def)
  qed
  then show "lit \<noteq> []" "\<not> isWhitespace (hd lit)" "ty \<noteq> TokenEOF"
    by simp_all
qed

text \<open>The token streams of an input and of the joined literals.\<close>

lemma NextToken_scan_None:
  assumes ok0: "lexerOK l0"
    and scan: "scanToken (dropWhile isWhitespace (remaining l0)) = None"
  shows "Type (fst (NextToken l0)) = TokenString"
proof -
  let ?l = "skipWhitespace l0"
  let ?s = "dropWhile isWhitespace (remaining l0)"
  from skipWhitespace_OK [OF ok0] have ok: "lexerOK ?l" and rem: "remaining ?l = ?s"
    by simp_all
  from scan obtain c cs where s: "?s = c # cs" and c: "c = CHR 0x22 \<or> c = CHR 0x27"
    unfolding scanToken_def Let_def by (auto split: list.splits if_splits)
  with ch_remaining [OF ok] rem have "ch ?l = CHR 0x22 \<or> ch ?l = CHR 0x27"
    by simp
  then show ?thesis
    by (auto simp: NextToken_def Let_def case_prod_beta)
qed

lemma lexTokens_good:
  assumes "lexerOK l"
    and "\<forall>t \<in> set (lexTokens l). Type t \<noteq> TokenString \<and> Type t \<noteq> TokenIllegal"
  shows "list_all goodToken (map (\<lambda>tok. (Type tok, Literal tok)) (lexTokens l))"
  using assms
proof (induction l rule: lexTokens.induct)
  case (1 l)
  obtain tok l' where nt: "NextToken l = (tok, l')"
    by (cases "NextToken l")
  show ?case
  proof (cases "Type tok = TokenEOF")
    case True
    with nt show ?thesis by (simp add: lexTokens.simps [of l])
  next
    case False
    with nt have toks: "lexTokens l = tok # lexTokens l'"
      by (simp add: lexTokens.simps [of l])
    with "1.prems"(2) have ty: "Type tok \<noteq> TokenString" "Type tok \<noteq> TokenIllegal"
      and rest: "\<forall>t \<in> set (lexTokens l'). Type t \<noteq> TokenString \<and> Type t \<noteq> TokenIllegal"
      by simp_all
    from NextToken_scan_None [OF "1.prems"(1)] nt ty(1)
    obtain ty' lit r where scan: "scanToken (dropWhile isWhitespace (remaining l)) = Some (ty', lit, r)"
      by (cases "scanToken (dropWhile isWhitespace (remaining l))") auto
    from NextToken_scan [OF "1.prems"(1) scan] nt
    have tok: "Type tok = ty'" "Literal tok = lit" and ok': "lexerOK l'"
      by simp_all
    from scanToken_good [OF scan] tok False ty have "goodToken (Type tok, Literal tok)"
      by simp
    moreover from "1.IH" [OF nt [symmetric] False ok' rest]
    have "list_all goodToken (map (\<lambda>tok. (Type tok, Literal tok)) (lexTokens l'))" .
    ultimately show ?thesis
      by (simp add: toks)
  qed
qed

lemma joinLiterals_Cons:
  "joinLiterals (t # ts) = snd t @ (if ts = [] then [] else CHR '' '' # joinLiterals ts)"
  by (cases ts) simp_all

lemma joinLiterals_start:
  assumes "list_all goodToken ts"
  shows "dropWhile isWhitespace (joinLiterals ts) = joinLiterals ts"
proof (cases ts)
  case Nil
  then show ?thesis by simp
next
  case (Cons t ts')
  with assms have "goodToken (fst t, snd t)" by simp
  from goodToken_literal(1,2) [OF this] obtain c cs where "snd t = c # cs" "\<not> isWhitespace c"
    by (cases "snd t") auto
  then show ?thesis
    by (simp add: Cons joinLiterals_Cons)
qed

lemma lexTokens_joinLiterals:
  assumes "list_all goodToken ts" "lexerOK l"
    and "dropWhile isWhitespace (remaining l) = joinLiterals ts"
  shows "map (\<lambda>tok. (Type tok, Literal tok)) (lexTokens l) = ts"
  using assms
proof (induction ts arbitrary: l)
  case Nil
  have "scanToken (dropWhile isWhitespace (remaining l)) = Some (TokenEOF, [], [])"
    unfolding Nil.prems(3) joinLiterals.simps scanToken_def by simp
  from NextToken_scan [OF Nil.prems(2) this] show ?case
    by (simp add: lexTokens.simps [of l] case_prod_beta)
next
  case (Cons t ts)
  obtain ty lit where t: "t = (ty, lit)" by (cases t)
  let ?r = "if ts = [] then [] else CHR '' '' # joinLiterals ts"
  from Cons.prems(1) have good: "goodToken (ty, lit)" and goods: "list_all goodToken ts"
    by (simp_all add: t)
  have sep: "separated ?r" by (simp add: separated_def)
  from Cons.prems(3) have "dropWhile isWhitespace (remaining l) = lit @ ?r"
    by (simp only: joinLiterals_Cons t snd_conv)
  with scanToken_separated [OF good sep]
  have scan: "scanToken (dropWhile isWhitespace (remaining l)) = Some (ty, lit, ?r)"
    by simp
  obtain tok l' where nt: "NextToken l = (tok, l')"
    by (cases "NextToken l")
  from NextToken_scan [OF Cons.prems(2) scan] nt
  have tok: "Type tok = ty" "Literal tok = lit" and ok': "lexerOK l'" and rem': "remaining l' = ?r"
    by simp_all
  from goodToken_literal(3) [OF good] tok nt have toks: "lexTokens l = tok # lexTokens l'"
    by (simp add: lexTokens.simps [of l])
  have "dropWhile isWhitespace (remaining l') = joinLiterals ts"
    using joinLiterals_start [OF goods] by (simp add: rem' isWhitespace_def)
  from Cons.IH [OF goods ok' this] tok show ?case
    by (simp add: toks t)
qed

text \<open>\<^bold>\<open>C8\<close>, as the claim states it, fails for string literals. \<open>readString\<close> returns the
  text between the quotes, so the literal of a string token has lost its quotes, and
  lexing it again gives whatever that text lexes to: the input \<open>'Bob'\<close> is one string
  token with literal \<open>Bob\<close>, which lexes again as an identifier, and the input \<open>"42"\<close> is
  one string token with literal \<open>42\<close>, which lexes again as a number. Neither input has an
  illegal token.\<close>

theorem relexing_string_literal_counterexample:
  "Tokenize [CHR 0x27, CHR ''B'', CHR ''o'', CHR ''b'', CHR 0x27] = [(TokenString, ''Bob'')]
   \<and> Tokenize (joinLiterals (Tokenize [CHR 0x27, CHR ''B'', CHR ''o'', CHR ''b'', CHR 0x27]))
       = [(TokenIdentifier, ''Bob'')]
   \<and> Tokenize [CHR 0x22, CHR ''4'', CHR ''2'', CHR 0x22] = [(TokenString, ''42'')]
   \<and> Tokenize (joinLiterals (Tokenize [CHR 0x22, CHR ''4'', CHR ''2'', CHR 0x22]))
       = [(TokenNumber, ''42'')]"
  by code_simp

text \<open>\<^bold>\<open>C8.\<close> For every input whose tokens include neither an illegal token nor a string
  token, lexing the literals of its tokens, joined with single spaces, gives the same
  sequence of token types and literals (up to the end-of-input token) as lexing the
  input.\<close>

theorem relexing_without_strings:
  assumes "TokenIllegal \<notin> fst ` set (Tokenize s)" and "TokenString \<notin> fst ` set (Tokenize s)"
  shows "Tokenize (joinLiterals (Tokenize s)) = Tokenize s"
proof -
  let ?l = "NewLexer s"
  have ok: "lexerOK ?l" using NewLexer_OK by simp
  have "\<forall>t \<in> set (lexTokens ?l). Type t \<noteq> TokenString \<and> Type t \<noteq> TokenIllegal"
    using assms by (force simp: Tokenize_def image_iff)
  from lexTokens_good [OF ok this] have goods: "list_all goodToken (Tokenize s)"
    by (simp add: Tokenize_def)
  let ?l' = "NewLexer (joinLiterals (Tokenize s))"
  have ok': "lexerOK ?l'" and rem': "remaining ?l' = joinLiterals (Tokenize s)"
    using NewLexer_OK by simp_all
  from lexTokens_joinLiterals [OF goods ok'] joinLiterals_start [OF goods] rem'
  show ?thesis
    by (simp add: Tokenize_def)
qed

theorem relexing_without_strings_witness:
  "TokenIllegal \<notin> fst ` set (Tokenize ''MATCH (a)-[r]->(b) WHERE a.age>=21 RETURN b'')
   \<and> TokenString \<notin> fst ` set (Tokenize ''MATCH (a)-[r]->(b) WHERE a.age>=21 RETURN b'')
   \<and> joinLiterals (Tokenize ''MATCH (a)-[r]->(b) WHERE a.age>=21 RETURN b'')
        = ''MATCH ( a ) - [ r ] -> ( b ) WHERE a . age >= 21 RETURN b''
   \<and> Tokenize (joinLiterals (Tokenize ''MATCH (a)-[r]->(b) WHERE a.age>=21 RETURN b''))
        = Tokenize ''MATCH (a)-[r]->(b) WHERE a.age>=21 RETURN b''"
proof -
  let ?s = "''MATCH (a)-[r]->(b) WHERE a.age>=21 RETURN b''"
  have h1: "TokenIllegal \<notin> fst ` set (Tokenize ?s)" by code_simp
  have h2: "TokenString \<notin> fst ` set (Tokenize ?s)" by code_simp
  have j: "joinLiterals (Tokenize ?s) = ''MATCH ( a ) - [ r ] -> ( b ) WHERE a . age >= 21 RETURN b''"
    by code_simp
  from relexing_without_strings [OF h1 h2] h1 h2 j show ?thesis
    by simp
qed


section \<open>Properties of expression evaluation\<close>








section \<open>Properties of the parser\<close>

lemma errors_nextToken [simp]: "errors (nextToken p) = errors p"
  by (simp add: nextToken_def case_prod_beta)

lemma errors_advance [simp]: "errors (advance n p) = errors p"
  by (induction n arbitrary: p) simp_all

text \<open>\<^bold>\<open>C6\<close>, as the claim states it, fails: the query \<open>MATCH (a)<-[r](b) RETURN a\<close>, whose edge
  pattern starts with \<open><-\<close> and has no closing dash, is parsed without an error, as an
  incoming edge.\<close>

theorem Parse_unclosed_left_arrow_counterexample:
  "(case Parse (NewParser ''MATCH (a)<-[r](b) RETURN a'') of
      Inl err \<Rightarrow> None
    | Inr q \<Rightarrow> map_option (map patEdges) (Match q))
   = Some [[\<lparr>epVariable = ''r'', epType = [], epDirection = DirectionIn\<rparr>]]"
  by code_simp

text \<open>\<^bold>\<open>C6\<close>, amended. When the tokens ahead are \<open><-\<close>, \<open>[\<close>, an optional variable, an optional
  \<open>:\<close> with a type, \<open>]\<close>, and then a token that is neither \<open>-\<close> nor \<open>->\<close>, \<open>parseEdgePattern\<close>
  reports no error: it returns an edge pattern of direction \<open>DirectionIn\<close> and stops at the
  token after \<open>]\<close>.\<close>

theorem parseEdgePattern_unclosed_left_arrow:
  assumes ahead: "typesAhead (length mid + 4) p
                    = TokenLeftArrow # TokenLeftBracket # mid @ [TokenRightBracket, t]"
    and mid: "mid \<in> {[], [TokenIdentifier], [TokenColon, TokenIdentifier],
                     [TokenIdentifier, TokenColon, TokenIdentifier]}"
    and unclosed: "t \<noteq> TokenArrow" "t \<noteq> TokenDash"
  shows "\<exists>edge. parseEdgePattern p = Inr (edge, advance (length mid + 3) p)
             \<and> epDirection edge = DirectionIn
             \<and> errors (advance (length mid + 3) p) = errors p"
proof -
  consider "mid = []" | "mid = [TokenIdentifier]" | "mid = [TokenColon, TokenIdentifier]"
    | "mid = [TokenIdentifier, TokenColon, TokenIdentifier]"
    using mid by auto
  then show ?thesis
  proof cases
    case 1
    with ahead unclosed show ?thesis
      by (simp add: eval_nat_numeral parseEdgePattern_def Let_def currentTokenIs_def)
  next
    case 2
    with ahead unclosed show ?thesis
      by (simp add: eval_nat_numeral parseEdgePattern_def Let_def currentTokenIs_def)
  next
    case 3
    with ahead unclosed show ?thesis
      by (simp add: eval_nat_numeral parseEdgePattern_def Let_def currentTokenIs_def)
  next
    case 4
    with ahead unclosed show ?thesis
      by (simp add: eval_nat_numeral parseEdgePattern_def Let_def currentTokenIs_def)
  qed
qed

theorem parseEdgePattern_unclosed_left_arrow_witness:
  "typesAhead 5 (NewParser ''<-[r](b)'')
     = [TokenLeftArrow, TokenLeftBracket, TokenIdentifier, TokenRightBracket, TokenLeftParen]
   \<and> (\<exists>edge. parseEdgePattern (NewParser ''<-[r](b)'')
                  = Inr (edge, advance 4 (NewParser ''<-[r](b)''))
          \<and> epDirection edge = DirectionIn)"
proof -
  have ahead: "typesAhead (length [TokenIdentifier] + 4) (NewParser ''<-[r](b)'')
      = TokenLeftArrow # TokenLeftBracket # [TokenIdentifier] @ [TokenRightBracket, TokenLeftParen]"
    by code_simp
  from parseEdgePattern_unclosed_left_arrow [OF ahead] ahead show ?thesis
    by simp
qed

end
